theory Spec2Isabelle
  imports Complex_Main "HOL-Library.Char_ord" "HOL-Library.List_Lexorder" "HOL-Library.AList"
begin

section \<open>The cross-correlation step of MSNoise (s03compute\_no\_rotation.py)\<close>

text \<open>
  The development embeds the function \<open>main\<close> of \<open>msnoise/s03compute_no_rotation.py\<close>.
  Python integers are read as \<open>int\<close> or \<open>nat\<close>. A finite Python float is read as the real
  number it stands for. The program branches on floats that it computes from the
  configuration (lines 239, 244, 268, 364 and 376) and on the frequencies of \<open>fftfreq\<close>
  (line 356); that arithmetic rounds, so the four operations on floats and \<open>fftfreq\<close> are
  parameters of the model, and nothing is assumed of them. Comparisons of floats, and of an
  integer with a float, are exact in Python and in the model. The program does not branch
  on a sample after line 291; the arithmetic on samples (mean, standard deviation, clipping
  level) is written over the reals, and the NaN that NumPy writes for the standard deviation
  of no samples is one value among the parameters.
  The codes of a trace (network, station, location, channel) are kept as four strings;
  they are assumed to contain no dot, so that \<open>tr.id.split(".")\<close> gives the four codes back.
  Functions of ObsPy, NumPy, SciPy and Matplotlib whose result the program only passes on
  are parameters of the model; those whose result the program inspects are written out.
\<close>

subsection \<open>Exceptions\<close>

datatype error =
    IndexError        \<comment> \<open>indexing an empty sequence\<close>
  | ValueError        \<comment> \<open>unpacking a sequence of the wrong length\<close>
  | ZeroDivisionError \<comment> \<open>float division by zero\<close>
  | SystemExit        \<comment> \<open>\<open>sys.exit()\<close>\<close>

definition on_ok :: "error + 'a \<Rightarrow> ('a \<Rightarrow> error + 'b) \<Rightarrow> error + 'b" where
  "on_ok r f = (case r of Inl e \<Rightarrow> Inl e | Inr v \<Rightarrow> f v)"

text \<open>A \<open>for\<close> loop whose body may raise: over a list of results, and over a state.\<close>

fun each_ok :: "('a \<Rightarrow> error + 'b) \<Rightarrow> 'a list \<Rightarrow> error + 'b list" where
  "each_ok f [] = Inr []"
| "each_ok f (x # xs) = on_ok (f x) (\<lambda>y. on_ok (each_ok f xs) (\<lambda>ys. Inr (y # ys)))"

fun fold_ok :: "('a \<Rightarrow> 's \<Rightarrow> error + 's) \<Rightarrow> 'a list \<Rightarrow> 's \<Rightarrow> error + 's" where
  "fold_ok f [] s = Inr s"
| "fold_ok f (x # xs) s = on_ok (f x s) (fold_ok f xs)"

subsection \<open>Traces, gaps and configuration\<close>

record trace =
  network :: string
  station :: string
  location :: string
  channel :: string
  sampling_rate :: real
  starttime :: real
  data :: "real list"

text \<open>\<open>tr.stats.npts\<close> is the number of samples of the trace.\<close>

definition npts :: "trace \<Rightarrow> nat" where
  "npts tr = length (data tr)"

type_synonym chan_id = "string \<times> string \<times> string \<times> string"

text \<open>\<open>tr.id.split(".")\<close>: network, station, location and channel code.\<close>

definition trace_id :: "trace \<Rightarrow> chan_id" where
  "trace_id tr = (network tr, station tr, location tr, channel tr)"

text \<open>
  An entry of \<open>Stream.get_gaps\<close>: the four codes, the times around the gap, its duration
  (\<open>gap[-2]\<close>, negative for an overlap) and the number of missing samples.
\<close>

record gap =
  gap_network :: string
  gap_station :: string
  gap_location :: string
  gap_channel :: string
  gap_start :: real
  gap_end :: real
  gap_delta :: real
  gap_samples :: int

record params =
  components_to_compute :: "string list"
  goal_sampling_rate :: real
  corr_duration :: real
  overlap :: real
  maxlag :: real
  windsorizing :: real
  whitening :: string
  autocorr :: bool
  keep_all :: bool
  keep_days :: bool
  stack_method :: string
  pws_timegate :: real
  pws_power :: real
  min30 :: real

record filterdb =
  ref :: int
  low :: real
  high :: real

subsection \<open>Jobs, the calls to the job store, and the functions taken as given\<close>

record job =
  job_day :: string
  job_pair :: string
  job_ref :: int

text \<open>
  The functions of \<open>msnoise/api.py\<close> that change the database, \<open>get_next_job\<close> (which marks the
  jobs it returns) and \<open>preprocess\<close> are not among the sources. A run is described by the
  calls it makes to them, in order.
\<close>

datatype event =
    Get_next_job "job list"
      \<comment> \<open>\<open>get_next_job(db, jobtype='CC')\<close> and the jobs it returned\<close>
  | Preprocess "string list" "string list" string
      \<comment> \<open>\<open>preprocess(db, stations, comps, goal_day, params, responses)\<close>\<close>
  | Update_job string string string string "int option"
      \<comment> \<open>\<open>update_job(db, day, pair, jobtype, flag, ref)\<close>\<close>
  | Massive_update_job "job list" string
      \<comment> \<open>\<open>massive_update_job(db, jobs, flag)\<close>\<close>
  | Export_allcorr2 string "(string \<times> real list) list"
      \<comment> \<open>\<open>export_allcorr2(db, ccfid, allcorr[ccfid])\<close>\<close>
  | Add_corr string string int string string real string "real list" real nat
      \<comment> \<open>\<open>add_corr(db, station1, station2, filterid, thisdate, thistime, duration,
          components, corr, sampling_rate, day=True, ncorr)\<close>\<close>

text \<open>
  What the program calls and does not define. The answers of the job store may depend on
  the calls made so far. \<open>whiten2\<close> changes its first argument in place; the model returns
  the changed spectra. \<open>fl_add\<close>, \<open>fl_sub\<close>, \<open>fl_mul\<close> and \<open>fl_div\<close> are \<open>+\<close>, \<open>-\<close>, \<open>*\<close> and \<open>/\<close>
  of Python on two floats (an integer operand is converted first); \<open>fl_div\<close> is asked only
  for a divisor that is not zero. \<open>nan\<close> is the sample that stands for NaN. \<open>taper\<close> is
  \<open>Trace.taper(0.04)\<close> on the samples of one trace.
\<close>

record ext =
  fl_add :: "real \<Rightarrow> real \<Rightarrow> real"
  fl_sub :: "real \<Rightarrow> real \<Rightarrow> real"
  fl_mul :: "real \<Rightarrow> real \<Rightarrow> real"
  fl_div :: "real \<Rightarrow> real \<Rightarrow> real"
  nan :: real
  is_next_job :: "event list \<Rightarrow> bool"
  get_next_job :: "event list \<Rightarrow> job list"
  preprocess :: "string list \<Rightarrow> string list \<Rightarrow> string \<Rightarrow> trace list"
  slide :: "trace list \<Rightarrow> real \<Rightarrow> real \<Rightarrow> trace list list"
  stream_sort :: "trace list \<Rightarrow> trace list"
  get_gaps :: "trace list \<Rightarrow> gap list"
  next_fast_len :: "nat \<Rightarrow> nat"
  scoreatpercentile :: "real list \<Rightarrow> real \<Rightarrow> real"
  taper :: "real list \<Rightarrow> real list"
  psd :: "real list \<Rightarrow> real \<Rightarrow> nat \<Rightarrow> real list"
  strftime :: "string \<Rightarrow> real \<Rightarrow> string"
  fftfreq :: "nat \<Rightarrow> real \<Rightarrow> real list"
  fftn :: "real list list \<Rightarrow> nat \<Rightarrow> complex list list"
  ifft :: "complex list \<Rightarrow> nat \<Rightarrow> complex list"
  whiten2 :: "complex list list \<Rightarrow> nat \<Rightarrow> int \<Rightarrow> int \<Rightarrow> int \<Rightarrow> int \<Rightarrow> real list list \<Rightarrow> string
              \<Rightarrow> complex list list"
  stack :: "real list list \<Rightarrow> string \<Rightarrow> real \<Rightarrow> real \<Rightarrow> real \<Rightarrow> real list"

subsection \<open>Channels without gaps (lines 249--265)\<close>

definition channels_to_remove :: "gap list \<Rightarrow> chan_id list" where
  "channels_to_remove gaps =
     map (\<lambda>g. (gap_network g, gap_station g, gap_location g, gap_channel g))
       (filter (\<lambda>g. gap_delta g > 0) gaps)"

text \<open>
  \<open>tmp.select(network, station, location, channel)\<close> followed by \<open>tmp.remove\<close> of every
  selected trace; the codes are matched exactly.
\<close>

definition remove_channel :: "chan_id \<Rightarrow> trace list \<Rightarrow> trace list" where
  "remove_channel c tmp = filter (\<lambda>tr. trace_id tr \<noteq> c) tmp"

text \<open>The loop over \<open>np.unique(channels_to_remove)\<close>; the order of \<open>np.unique\<close> does not
  matter to the traces that stay.\<close>

definition remove_gapped :: "gap list \<Rightarrow> trace list \<Rightarrow> trace list" where
  "remove_gapped gaps tmp = fold remove_channel (remdups (channels_to_remove gaps)) tmp"

subsection \<open>Channels of the common length (lines 267--280)\<close>

text \<open>\<open>np.amax([tr.stats.npts for tr in tmp])\<close>, called on a stream that is not empty.\<close>

definition base_npts :: "trace list \<Rightarrow> nat" where
  "base_npts tmp = fold max (map npts tmp) 0"

definition drop_short :: "nat \<Rightarrow> trace list \<Rightarrow> trace list" where
  "drop_short base tmp = filter (\<lambda>tr. npts tr = base) tmp"

text \<open>\<open>params.maxlag*params.goal_sampling_rate*2+1\<close> of line 268, evaluated from the left in
  floats.\<close>

definition lag_threshold :: "ext \<Rightarrow> params \<Rightarrow> real" where
  "lag_threshold ex p =
     fl_add ex (fl_mul ex (fl_mul ex (maxlag p) (goal_sampling_rate p)) 2) 1"

text \<open>
  The three \<open>continue\<close> statements of lines 263--280: \<open>None\<close> is a window that is skipped,
  \<open>Some\<close> the traces that go on to the correlation.
\<close>

definition length_stage :: "ext \<Rightarrow> params \<Rightarrow> trace list \<Rightarrow> trace list option" where
  "length_stage ex p tmp =
     (let base = base_npts tmp in
      if real base \<le> lag_threshold ex p then None
      else let tmp' = drop_short base tmp in
        if length tmp' = 0 then None else Some tmp')"

definition select_channels :: "ext \<Rightarrow> params \<Rightarrow> gap list \<Rightarrow> trace list \<Rightarrow> trace list option" where
  "select_channels ex p gaps tmp0 =
     (let tmp = remove_gapped gaps tmp0 in
      if length tmp = 0 then None else length_stage ex p tmp)"

subsection \<open>Demeaning, amplitude normalisation and taper (lines 283--295)\<close>

definition np_mean :: "real list \<Rightarrow> real" where
  "np_mean xs = sum_list xs / real (length xs)"

text \<open>\<open>tmp.detrend("demean")\<close> on one trace.\<close>

definition demean :: "real list \<Rightarrow> real list" where
  "demean d = map (\<lambda>x. x - np_mean d) d"

text \<open>\<open>ndarray.std()\<close>: the square root of the mean squared deviation from the mean; of no
  samples it is NaN (with a warning, no exception), here \<open>None\<close>.\<close>

definition np_std :: "real list \<Rightarrow> real option" where
  "np_std xs =
     (if xs = [] then None else Some (sqrt (np_mean (map (\<lambda>x. (x - np_mean xs)\<^sup>2) xs))))"

text \<open>\<open>np.clip(a, a_min, a_max)\<close> on one sample: \<open>minimum(maximum(a, a_min), a_max)\<close>.\<close>

definition np_clip :: "real \<Rightarrow> real \<Rightarrow> real \<Rightarrow> real" where
  "np_clip a_min a_max a = min (max a a_min) a_max"

text \<open>
  The body of the loop of lines 285--293 on the samples of one trace. With no sample
  between the two percentiles \<open>rms\<close> is NaN and \<open>np.clip\<close> writes NaN into every sample;
  nothing is raised.
\<close>

definition windsorize_trace :: "ext \<Rightarrow> real \<Rightarrow> real list \<Rightarrow> real list" where
  "windsorize_trace ex w d =
     (if w = - 1 then map sgn d
      else if w \<noteq> 0 then
        (let imin = scoreatpercentile ex d 1;
             imax = scoreatpercentile ex d 99;
             not_outliers = filter (\<lambda>x. x \<ge> imin \<and> x \<le> imax) d
         in case np_std not_outliers of
              None \<Rightarrow> map (\<lambda>x. nan ex) d
            | Some s \<Rightarrow> (let rms = s * w in map (np_clip (- rms) rms) d))
      else d)"

text \<open>Lines 283--295 on the traces of a window: \<open>tmp.detrend("demean")\<close>, the loop of lines
  285--293 over the traces, \<open>tmp.taper(0.04)\<close>.\<close>

definition detrend_demean :: "trace list \<Rightarrow> trace list" where
  "detrend_demean tmp = map (\<lambda>tr. tr\<lparr>data := demean (data tr)\<rparr>) tmp"

definition windsorize :: "ext \<Rightarrow> params \<Rightarrow> trace list \<Rightarrow> trace list" where
  "windsorize ex p tmp =
     map (\<lambda>tr. tr\<lparr>data := windsorize_trace ex (windsorizing p) (data tr)\<rparr>) tmp"

definition taper_traces :: "ext \<Rightarrow> trace list \<Rightarrow> trace list" where
  "taper_traces ex tmp = map (\<lambda>tr. tr\<lparr>data := taper ex (data tr)\<rparr>) tmp"

definition normalise_traces :: "ext \<Rightarrow> params \<Rightarrow> trace list \<Rightarrow> trace list" where
  "normalise_traces ex p tmp = taper_traces ex (windsorize ex p (detrend_demean tmp))"

subsection \<open>The index of components per station and the pooled spectra (lines 300--329)\<close>

text \<open>\<open>c1[-1]\<close>: the last character of a channel code.\<close>

definition last_char :: "string \<Rightarrow> error + char" where
  "last_char s = (if s = [] then Inl IndexError else Inr (last s))"

text \<open>
  \<open>channel_index\<close> is a dictionary of dictionaries; association lists keep the order in
  which the keys were first stored, which is the order Python iterates in.
\<close>

type_synonym channel_index = "(string \<times> (char \<times> nat) list) list"

definition netsta_of :: "chan_id \<Rightarrow> string" where
  "netsta_of name = (case name of (n1, s1, l1, c1) \<Rightarrow> n1 @ ''.'' @ s1)"

definition index_channel :: "channel_index \<Rightarrow> nat \<Rightarrow> chan_id \<Rightarrow> error + channel_index" where
  "index_channel ci i name =
     (case name of (n1, s1, l1, c1) \<Rightarrow>
        (let netsta = n1 @ ''.'' @ s1;
             comps = (case map_of ci netsta of None \<Rightarrow> [] | Some m \<Rightarrow> m)
         in on_ok (last_char c1) (\<lambda>c.
              Inr (AList.update netsta (AList.update c i comps) ci))))"

fun build_channel_index :: "nat \<Rightarrow> chan_id list \<Rightarrow> channel_index \<Rightarrow> error + channel_index" where
  "build_channel_index i [] ci = Inr ci"
| "build_channel_index i (name # names) ci =
     on_ok (index_channel ci i name) (build_channel_index (Suc i) names)"

text \<open>\<open>psds[[i_e, i_n]].mean(axis=0)\<close>: the mean of two rows, element by element.\<close>

definition row_mean :: "real list \<Rightarrow> real list \<Rightarrow> real list" where
  "row_mean a b = map2 (\<lambda>x y. (x + y) / 2) a b"

definition pool_station :: "string \<times> (char \<times> nat) list \<Rightarrow> real list list \<Rightarrow> error + real list list" where
  "pool_station entry psds =
     (case (map_of (snd entry) CHR ''E'', map_of (snd entry) CHR ''N'') of
        (Some i_e, Some i_n) \<Rightarrow>
          if i_e < length psds \<and> i_n < length psds then
            (let mm = row_mean (psds ! i_e) (psds ! i_n) in Inr ((psds[i_e := mm])[i_n := mm]))
          else Inl IndexError
      | _ \<Rightarrow> Inr psds)"

definition pool_psds :: "channel_index \<Rightarrow> real list list \<Rightarrow> error + real list list" where
  "pool_psds ci psds = fold_ok pool_station ci psds"

subsection \<open>The pairs to correlate (lines 337--349)\<close>

text \<open>\<open>itertools.combinations(names, 2)\<close> and \<open>itertools.combinations_with_replacement(names, 2)\<close>.\<close>

fun combinations2 :: "'a list \<Rightarrow> ('a \<times> 'a) list" where
  "combinations2 [] = []"
| "combinations2 (x # xs) = map (Pair x) xs @ combinations2 xs"

fun combinations2_wr :: "'a list \<Rightarrow> ('a \<times> 'a) list" where
  "combinations2_wr [] = []"
| "combinations2_wr (x # xs) = map (Pair x) (x # xs) @ combinations2_wr xs"

text \<open>\<open>names.index(x)\<close>: the first position of \<open>x\<close>.\<close>

fun list_index :: "'a list \<Rightarrow> 'a \<Rightarrow> error + nat" where
  "list_index [] x = Inl ValueError"
| "list_index (y # ys) x = (if y = x then Inr 0 else on_ok (list_index ys x) (\<lambda>i. Inr (Suc i)))"

type_synonym pair_entry = "string \<times> nat \<times> nat"

text \<open>\<open>"%s.%s_%s.%s_%s" % (n1, s1, n2, s2, comp)\<close>\<close>

definition pair_id :: "chan_id \<Rightarrow> chan_id \<Rightarrow> string \<Rightarrow> string" where
  "pair_id sta1 sta2 cc =
     (case (sta1, sta2) of ((n1, s1, l1, c1), (n2, s2, l2, c2)) \<Rightarrow>
        n1 @ ''.'' @ s1 @ ''_'' @ n2 @ ''.'' @ s2 @ ''_'' @ cc)"

definition pair_entry :: "string list \<Rightarrow> chan_id list \<Rightarrow> chan_id \<times> chan_id \<Rightarrow> error + pair_entry list" where
  "pair_entry ctc names pr =
     (case pr of (sta1, sta2) \<Rightarrow>
        on_ok (last_char (snd (snd (snd sta1)))) (\<lambda>a.
        on_ok (last_char (snd (snd (snd sta2)))) (\<lambda>b.
          let cc = [a, b] in
          if cc \<in> set ctc then
            on_ok (list_index names sta1) (\<lambda>i.
            on_ok (list_index names sta2) (\<lambda>j. Inr [(pair_id sta1 sta2 cc, i, j)]))
          else Inr [])))"

definition pair_index :: "params \<Rightarrow> chan_id list \<Rightarrow> error + pair_entry list" where
  "pair_index p names =
     (let iterfunc = (if autocorr p then combinations2_wr else combinations2) in
      on_ok (each_ok (pair_entry (components_to_compute p) names) (iterfunc names))
        (\<lambda>es. Inr (concat es)))"

text \<open>The component letter of a channel whose code is not empty.\<close>

definition comp_of :: "chan_id \<Rightarrow> char" where
  "comp_of name = last (snd (snd (snd name)))"

subsection \<open>The bins of a filter band (lines 352--365)\<close>

text \<open>\<open>scipy.fftpack.fftfreq(nfft, d=dt)[:nfft // 2]\<close>, and the positions of its entries
  inside the band, \<open>np.where((freq_vec >= low) & (freq_vec <= high))[0]\<close>.\<close>

definition freq_vec :: "ext \<Rightarrow> nat \<Rightarrow> real \<Rightarrow> real list" where
  "freq_vec ex nfft dt = take (nfft div 2) (fftfreq ex nfft dt)"

definition freq_sel :: "ext \<Rightarrow> nat \<Rightarrow> real \<Rightarrow> real \<Rightarrow> real \<Rightarrow> nat list" where
  "freq_sel ex nfft dt lo hi =
     (let fv = freq_vec ex nfft dt in
      filter (\<lambda>k. fv ! k \<ge> lo \<and> fv ! k \<le> hi) [0 ..< length fv])"

definition napod :: int where
  "napod = 100"

text \<open>The values \<open>low\<close>, \<open>high\<close>, \<open>p1\<close> and \<open>p2\<close> handed to \<open>whiten2\<close>; \<open>freq_sel[0]\<close> raises
  when no entry lies inside the band.\<close>

definition whiten_bounds :: "ext \<Rightarrow> nat \<Rightarrow> real \<Rightarrow> filterdb \<Rightarrow> error + (int \<times> int \<times> int \<times> int)" where
  "whiten_bounds ex nfft dt f =
     (let sel = freq_sel ex nfft dt (low f) (high f) in
      if sel = [] then Inl IndexError
      else
        (let l0 = int (hd sel) - napod;
             l = (if l0 \<le> 0 then 1 else l0);
             p1 = int (hd sel);
             p2 = int (last sel);
             h0 = int (last sel) + napod;
             h = (if real_of_int h0 > fl_div ex (real nfft) 2 then int (nfft div 2) else h0)
         in Inr (l, h, p1, p2)))"

subsection \<open>Strings\<close>

text \<open>\<open>s.split(c)\<close> for a separator of one character.\<close>

fun split_char :: "char \<Rightarrow> string \<Rightarrow> string list" where
  "split_char c [] = [[]]"
| "split_char c (x # xs) =
     (if x = c then [] # split_char c xs
      else (case split_char c xs of [] \<Rightarrow> [[x]] | w # ws \<Rightarrow> (x # w) # ws))"

text \<open>\<open>np.unique\<close> on strings: sorted, each value once.\<close>

definition np_unique :: "string list \<Rightarrow> string list" where
  "np_unique xs = sort (remdups xs)"

definition digit_char :: "nat \<Rightarrow> char" where
  "digit_char n = ''0123456789'' ! (n mod 10)"

function str_nat :: "nat \<Rightarrow> string" where
  "str_nat n = (if n < 10 then [digit_char n] else str_nat (n div 10) @ [digit_char n])"
  by pat_completeness auto
termination
  by (relation "measure id") auto

text \<open>\<open>"%02i" % i\<close>\<close>

definition fmt_02i :: "int \<Rightarrow> string" where
  "fmt_02i i =
     (if i < 0 then CHR ''-'' # str_nat (nat (- i))
      else if i < 10 then CHR ''0'' # str_nat (nat i)
      else str_nat (nat i))"

definition digit_val :: "char \<Rightarrow> nat option" where
  "digit_val c = map_of (zip ''0123456789'' [0 ..< 10]) c"

fun parse_nat :: "string \<Rightarrow> nat \<Rightarrow> nat option" where
  "parse_nat [] acc = Some acc"
| "parse_nat (c # cs) acc =
     (case digit_val c of None \<Rightarrow> None | Some d \<Rightarrow> parse_nat cs (10 * acc + d))"

text \<open>\<open>int(s)\<close> on the texts that \<open>"%02i"\<close> writes: digits, with a minus sign for a negative
  number.\<close>

definition py_int :: "string \<Rightarrow> error + int" where
  "py_int s =
     (case s of
        [] \<Rightarrow> Inl ValueError
      | c # cs \<Rightarrow>
          if c = CHR ''-'' then
            (if cs = [] then Inl ValueError
             else (case parse_nat cs 0 of None \<Rightarrow> Inl ValueError | Some n \<Rightarrow> Inr (- int n)))
          else (case parse_nat s 0 of None \<Rightarrow> Inl ValueError | Some n \<Rightarrow> Inr (int n)))"

subsection \<open>The correlation of one window in one band (lines 351--387)\<close>

text \<open>\<open>np.real(np.sqrt(np.mean(scipy.fftpack.ifft(ffts, n=nfft, axis=1) ** 2, axis=1)))\<close>,
  for one row of \<open>ffts\<close>.\<close>

definition energy_of :: "(complex list \<Rightarrow> nat \<Rightarrow> complex list) \<Rightarrow> nat \<Rightarrow> complex list \<Rightarrow> real" where
  "energy_of ift nfft row = Re (csqrt (sum_list (map (\<lambda>z. z\<^sup>2) (ift row nfft)) / of_nat nfft))"

text \<open>
  Modelled from the spec: \<open>myCorr2\<close> of \<open>msnoise/move2obspy.py\<close> is not among the sources. The
  spec (4.6) has it multiply one channel's conjugated spectrum by the other's,
  inverse-transform, divide by the product of the two channels' energies, and extract the
  segment for the lags in \<open>[-maxlag, +maxlag]\<close>, one sequence per entry of the pair index,
  keyed by the entry's id. The inverse transform is circular: the lag \<open>l\<close> stands at position
  \<open>l mod n\<close>.
\<close>

definition lag_window :: "real list \<Rightarrow> int \<Rightarrow> real list" where
  "lag_window c maxlag_samples =
     map (\<lambda>l. if c = [] then 0 else c ! nat (l mod int (length c))) [- maxlag_samples .. maxlag_samples]"

definition correlate :: "(complex list \<Rightarrow> nat \<Rightarrow> complex list) \<Rightarrow> nat \<Rightarrow> int
    \<Rightarrow> complex list \<times> real \<Rightarrow> complex list \<times> real \<Rightarrow> real list" where
  "correlate ift nfft maxlag_samples a b =
     lag_window
       (map (\<lambda>z. Re z / (snd a * snd b)) (ift (map2 (\<lambda>x y. cnj x * y) (fst a) (fst b)) nfft))
       maxlag_samples"

definition myCorr2 :: "(complex list \<Rightarrow> nat \<Rightarrow> complex list) \<Rightarrow> complex list list \<Rightarrow> int \<Rightarrow> real list
    \<Rightarrow> pair_entry list \<Rightarrow> nat \<Rightarrow> (string \<times> real list) list" where
  "myCorr2 ift ffts maxlag_samples energy index nfft =
     map (\<lambda>(key, i, j).
            (key, correlate ift nfft maxlag_samples (ffts ! i, energy ! i) (ffts ! j, energy ! j)))
       index"

text \<open>The spectra after \<open>whiten2\<close>: one call for all the channels of the window.\<close>

definition whitened :: "ext \<Rightarrow> params \<Rightarrow> nat \<Rightarrow> int \<times> int \<times> int \<times> int \<Rightarrow> real list list \<Rightarrow> real list list
    \<Rightarrow> complex list list" where
  "whitened ex p nfft bounds dat psds =
     (case bounds of (l, h, p1, p2) \<Rightarrow>
        whiten2 ex (fftn ex dat nfft) nfft l h p1 p2 psds (whitening p))"

definition filter_corr :: "ext \<Rightarrow> params \<Rightarrow> nat \<Rightarrow> real \<Rightarrow> real list list \<Rightarrow> real list list
    \<Rightarrow> pair_entry list \<Rightarrow> filterdb \<Rightarrow> error + (string \<times> real list) list" where
  "filter_corr ex p nfft dt dat psds pidx f =
     on_ok (whiten_bounds ex nfft dt f) (\<lambda>bounds.
       let ffts = whitened ex p nfft bounds dat psds;
           energy = map (energy_of (ifft ex) nfft) ffts
       in if dt = 0 then Inl ZeroDivisionError
          else Inr (myCorr2 (ifft ex) ffts \<lceil>fl_div ex (maxlag p) dt\<rceil> energy pidx nfft))"

type_synonym allcorr = "(string \<times> (string \<times> real list) list) list"

text \<open>\<open>allcorr[ccfid][thistime] = corr[key]\<close>, with \<open>ccfid\<close> made of the key, the filter and
  the date.\<close>

definition store_corr :: "string \<Rightarrow> string \<Rightarrow> int \<Rightarrow> string \<times> real list \<Rightarrow> allcorr \<Rightarrow> allcorr" where
  "store_corr thisdate thistime filterid kc ac =
     (let ccfid = fst kc @ ''_'' @ fmt_02i filterid @ ''_'' @ thisdate;
          times = (case map_of ac ccfid of None \<Rightarrow> [] | Some m \<Rightarrow> m)
      in AList.update ccfid (AList.update thistime (snd kc) times) ac)"

definition filter_step :: "ext \<Rightarrow> params \<Rightarrow> nat \<Rightarrow> real \<Rightarrow> real list list \<Rightarrow> real list list
    \<Rightarrow> pair_entry list \<Rightarrow> string \<Rightarrow> string \<Rightarrow> filterdb \<Rightarrow> allcorr \<Rightarrow> error + allcorr" where
  "filter_step ex p nfft dt dat psds pidx thisdate thistime f ac =
     on_ok (filter_corr ex p nfft dt dat psds pidx f) (\<lambda>corr.
       Inr (fold (store_corr thisdate thistime (ref f)) corr ac))"

subsection \<open>One window (lines 245--387)\<close>

text \<open>Lines 313--318: \<open>np.sqrt\<close> of \<open>mlab.psd(..., NFFT=nfft, detrend='mean')\<close>, one row per
  trace.\<close>

definition window_psds :: "ext \<Rightarrow> nat \<Rightarrow> trace list \<Rightarrow> real list list" where
  "window_psds ex nfft tmp = map (\<lambda>tr. map sqrt (psd ex (data tr) (sampling_rate tr) nfft)) tmp"

text \<open>Lines 300--387 on the traces that are left, the first of which started at \<open>t0\<close>.\<close>

definition correlate_traces :: "ext \<Rightarrow> params \<Rightarrow> filterdb list \<Rightarrow> real \<Rightarrow> nat \<Rightarrow> real \<Rightarrow> trace list
    \<Rightarrow> allcorr \<Rightarrow> error + allcorr" where
  "correlate_traces ex p filters dt nfft t0 tmp ac =
     (let dat = map data tmp;
          names = map trace_id tmp
      in on_ok (build_channel_index 0 names []) (\<lambda>ci.
         on_ok (pool_psds ci (window_psds ex nfft tmp)) (\<lambda>psds.
           let thisdate = strftime ex ''%Y-%m-%d'' t0;
               thistime = strftime ex ''%Y-%m-%d %H:%M:%S'' t0
           in on_ok (pair_index p names) (\<lambda>pidx.
                fold_ok (filter_step ex p nfft dt dat psds pidx thisdate thistime) filters ac))))"

definition process_window :: "ext \<Rightarrow> params \<Rightarrow> filterdb list \<Rightarrow> real \<Rightarrow> trace list \<Rightarrow> allcorr
    \<Rightarrow> error + allcorr" where
  "process_window ex p filters dt tmp0 ac =
     (if tmp0 = [] then Inl IndexError
      else
        (let tmp = stream_sort ex tmp0 in
         case select_channels ex p (get_gaps ex tmp) tmp of
           None \<Rightarrow> Inr ac
         | Some [] \<Rightarrow> Inl IndexError
         | Some (tr0 # trs) \<Rightarrow>
             correlate_traces ex p filters dt (next_fast_len ex (npts tr0)) (starttime tr0)
               (normalise_traces ex p (tr0 # trs)) ac))"

subsection \<open>The jobs of one day (lines 204--432)\<close>

definition job_stations :: "job list \<Rightarrow> error + string list" where
  "job_stations jobs =
     on_ok (each_ok (\<lambda>j. case split_char CHR '':'' (job_pair j) of
                            [netsta1, netsta2] \<Rightarrow> Inr [netsta1, netsta2]
                          | _ \<Rightarrow> Inl ValueError) jobs)
       (\<lambda>ss. Inr (np_unique (concat ss)))"

definition comp_letters :: "string \<Rightarrow> error + string list" where
  "comp_letters c =
     (case c of
        [] \<Rightarrow> Inl IndexError
      | a # r \<Rightarrow>
          if a \<in> set ''RT'' then Inr [''E'', ''N'']
          else (case r of
                  [] \<Rightarrow> Inl IndexError
                | b # r' \<Rightarrow> if b \<in> set ''RT'' then Inr [''E'', ''N''] else Inr [[a], [b]]))"

definition wanted_comps :: "params \<Rightarrow> error + string list" where
  "wanted_comps p =
     on_ok (each_ok comp_letters (components_to_compute p)) (\<lambda>cs. Inr (np_unique (concat cs)))"

text \<open>The body of the loop of lines 397--420 for one \<open>ccfid\<close>.\<close>

definition save_day :: "ext \<Rightarrow> params \<Rightarrow> string \<Rightarrow> string \<times> (string \<times> real list) list \<Rightarrow> event list
    \<Rightarrow> error + event list" where
  "save_day ex p goal_day entry calls =
     (case split_char CHR ''_'' (fst entry) of
        [station1, station2, components, filterid, date] \<Rightarrow>
          (let corrs = map snd (snd entry) in
           if length corrs = 0 then Inr calls
           else
             (let corr = stack ex corrs (stack_method p) (pws_timegate p) (pws_power p)
                           (goal_sampling_rate p) in
              if length corr = 0 then Inr calls
              else on_ok (py_int filterid) (\<lambda>fid.
                Inr (calls @ [Add_corr
                  (map (\<lambda>c. if c = CHR ''.'' then CHR ''_'' else c) station1)
                  (map (\<lambda>c. if c = CHR ''.'' then CHR ''_'' else c) station2)
                  fid goal_day ''0_0'' (fl_div ex (min30 p) (goal_sampling_rate p)) components corr
                  (goal_sampling_rate p) (length corrs)]))))
      | _ \<Rightarrow> Inl ValueError)"

definition job_done :: "job \<Rightarrow> event" where
  "job_done j = Update_job (job_day j) (job_pair j) ''CC'' ''D'' (Some (job_ref j))"

definition stack_todo :: "job \<Rightarrow> event" where
  "stack_todo j = Update_job (job_day j) (job_pair j) ''STACK'' ''T'' None"

text \<open>One turn of the \<open>while\<close> loop after \<open>get_next_job\<close> returned jobs: the calls made
  after it, or the exception that leaves \<open>main\<close>.\<close>

definition run_jobs :: "ext \<Rightarrow> params \<Rightarrow> filterdb list \<Rightarrow> job list \<Rightarrow> event list \<Rightarrow> error + event list" where
  "run_jobs ex p filters jobs calls =
     on_ok (job_stations jobs) (\<lambda>stations.
     on_ok (wanted_comps p) (\<lambda>comps.
       let goal_day = job_day (last jobs);
           stream = preprocess ex stations comps goal_day;
           calls1 = calls @ [Preprocess stations comps goal_day]
       in if length stream = 0 then Inr (calls1 @ map job_done jobs)
          else if goal_sampling_rate p = 0 then Inl ZeroDivisionError
          else
            (let dt = fl_div ex 1 (goal_sampling_rate p);
                 windows = slide ex stream (corr_duration p)
                             (fl_mul ex (corr_duration p) (fl_sub ex 1 (overlap p)))
             in on_ok (fold_ok (process_window ex p filters dt) windows []) (\<lambda>ac.
                let calls2 = (if keep_all p then calls1 @ map (\<lambda>e. Export_allcorr2 (fst e) (snd e)) ac
                            else calls1)
                in on_ok (if keep_days p then fold_ok (save_day ex p goal_day) ac calls2
                          else Inr calls2) (\<lambda>calls3.
                   Inr (calls3 @ [Massive_update_job jobs ''D''] @ map stack_todo jobs))))))"

subsection \<open>The loop over the jobs (lines 180--202)\<close>

partial_function (option) main_loop :: "ext \<Rightarrow> params \<Rightarrow> filterdb list \<Rightarrow> event list
    \<Rightarrow> (error + event list) option" where
  "main_loop ex p filters calls =
     (if is_next_job ex calls then
        (let jobs = get_next_job ex calls; calls1 = calls @ [Get_next_job jobs] in
         if length jobs = 0 then main_loop ex p filters calls1
         else (case run_jobs ex p filters jobs calls1 of
                 Inl e \<Rightarrow> Some (Inl e)
               | Inr calls2 \<Rightarrow> main_loop ex p filters calls2))
      else Some (Inr calls))"

text \<open>\<open>main\<close>, given what \<open>get_params\<close> and \<open>get_filters\<close> return. \<open>None\<close> is a run that
  does not end.\<close>

definition main :: "ext \<Rightarrow> params \<Rightarrow> filterdb list \<Rightarrow> (error + event list) option" where
  "main ex p filters =
     (if length filters = 0 then Some (Inl SystemExit) else main_loop ex p filters [])"

subsection \<open>Inputs for the examples\<close>

definition example_params :: params where
  "example_params =
     \<lparr>components_to_compute = [''ZZ''], goal_sampling_rate = 1, corr_duration = 5, overlap = 0,
      maxlag = 1, windsorizing = 0, whitening = ''A'', autocorr = False, keep_all = False,
      keep_days = True, stack_method = ''linear'', pws_timegate = 10, pws_power = 2, min30 = 5\<rparr>"

definition example_trace :: "string \<Rightarrow> string \<Rightarrow> real list \<Rightarrow> trace" where
  "example_trace sta chan d =
     \<lparr>network = ''BE'', station = sta, location = [], channel = chan, sampling_rate = 1,
      starttime = 0, data = d\<rparr>"

definition example_names :: "chan_id list" where
  "example_names =
     [(''BE'', ''MEM'', [], ''HHZ''), (''BE'', ''UCC'', [], ''HHN''), (''BE'', ''UCC'', [], ''HHZ'')]"

definition enz_names :: "chan_id list" where
  "enz_names =
     [(''BE'', ''MEM'', [], ''HHE''), (''BE'', ''MEM'', [], ''HHN''), (''BE'', ''MEM'', [], ''HHZ'')]"

definition example_window :: "trace list" where
  "example_window =
     [example_trace ''MEM'' ''HHZ'' [1, 2, 3, 4, 5],
      example_trace ''UCC'' ''HHN'' [1, 2, 3, 4],
      example_trace ''UCC'' ''HHZ'' [5, 4, 3, 2, 1]]"

text \<open>A percentile by linear interpolation between the sorted samples, the default of
  \<open>scoreatpercentile\<close>.\<close>

definition linear_percentile :: "real list \<Rightarrow> real \<Rightarrow> real" where
  "linear_percentile d per =
     (let s = sort d;
          idx = per / 100 * real (length d - 1);
          i = nat \<lfloor>idx\<rfloor>
      in if real i = idx then s ! i
         else (real (i + 1) - idx) * s ! i + (idx - real i) * s ! (i + 1))"

text \<open>
  Stand-ins for the functions taken as given, with fixed and simple answers: the gaps, the
  stream and the windows of the day are handed over as they are, no taper, a flat spectrum
  estimate, transforms and whitening that return their argument. The configurations of the
  examples hold small integers, 3/2 and bands of tenths between bins that are fifths or
  eighths; on these the float operations are exact and the comparisons come out as over the
  reals.
\<close>

definition example_ext :: "gap list \<Rightarrow> trace list \<Rightarrow> trace list list \<Rightarrow> job list \<Rightarrow> ext" where
  "example_ext gaps stream windows jobs =
     \<lparr>fl_add = (\<lambda>a b. a + b),
      fl_sub = (\<lambda>a b. a - b),
      fl_mul = (\<lambda>a b. a * b),
      fl_div = (\<lambda>a b. a / b),
      nan = 0,
      is_next_job = (\<lambda>calls. calls = []),
      get_next_job = (\<lambda>calls. jobs),
      preprocess = (\<lambda>stations comps goal_day. stream),
      slide = (\<lambda>st len step. windows),
      stream_sort = (\<lambda>tmp. tmp),
      get_gaps = (\<lambda>tmp. gaps),
      next_fast_len = (\<lambda>n. n),
      scoreatpercentile = linear_percentile,
      taper = (\<lambda>d. d),
      psd = (\<lambda>d fs nfft. replicate (nfft div 2 + 1) 1),
      strftime = (\<lambda>fmt t. if fmt = ''%Y-%m-%d'' then ''2020-01-01'' else ''2020-01-01 00:00:00''),
      fftfreq = (\<lambda>n d. map (\<lambda>k. (if k < (n + 1) div 2 then real k else real k - real n)
                                 / (real n * d)) [0 ..< n]),
      fftn = (\<lambda>dat nfft. map (map complex_of_real) dat),
      ifft = (\<lambda>row nfft. row),
      whiten2 = (\<lambda>ffts nfft l h p1 p2 psds whiten_type. ffts),
      stack = (\<lambda>corrs method timegate power rate. case corrs of [] \<Rightarrow> [] | c # cs \<Rightarrow> c)\<rparr>"

definition example_gap :: gap where
  "example_gap =
     \<lparr>gap_network = ''BE'', gap_station = ''MEM'', gap_location = [], gap_channel = ''HHN'',
      gap_start = 1, gap_end = 3, gap_delta = 1, gap_samples = 1\<rparr>"

definition gapped_window :: "trace list" where
  "gapped_window =
     [example_trace ''MEM'' ''HHN'' [1, 2],
      example_trace ''MEM'' ''HHN'' [4, 5],
      example_trace ''MEM'' ''HHZ'' [1, 2, 3, 4, 5]]"

definition example_filter :: filterdb where
  "example_filter = \<lparr>ref = 1, low = 1 / 10, high = 2 / 5\<rparr>"

definition auto_params :: params where
  "auto_params = example_params\<lparr>autocorr := True\<rparr>"

definition gappy_ext :: ext where
  "gappy_ext = example_ext [example_gap] gapped_window [] []"

text \<open>The ids under which a window stored correlations, and how many windows each holds.\<close>

definition stored_ids :: "error + allcorr \<Rightarrow> (string \<times> nat) list" where
  "stored_ids r = (case r of Inl e \<Rightarrow> [] | Inr ac \<Rightarrow> map (\<lambda>e. (fst e, length (snd e))) ac)"

definition example_job :: job where
  "example_job = \<lparr>job_day = ''2020-01-01'', job_pair = ''BE.MEM:BE.UCC'', job_ref = 7\<rparr>"

definition two_station_stream :: "trace list" where
  "two_station_stream =
     [example_trace ''MEM'' ''HHZ'' [1, 2, 3, 4, 5], example_trace ''UCC'' ''HHZ'' [5, 4, 3, 2, 1]]"

text \<open>A band above half the sampling rate of the examples.\<close>

definition high_filter :: filterdb where
  "high_filter = \<lparr>ref = 1, low = 3 / 5, high = 4 / 5\<rparr>"

text \<open>
  A day of five samples at 1 Hz in two channels, from 0 s to 4 s, cut into windows of 4 s:
  \<open>Stream.slide(4, 4)\<close> yields the one window from 0 s to 4 s, which holds all the samples.
\<close>

definition four_second_params :: params where
  "four_second_params = example_params\<lparr>corr_duration := 4\<rparr>"

definition two_station_ext :: ext where
  "two_station_ext = example_ext [] two_station_stream [two_station_stream] [example_job]"

text \<open>A day of three samples at 1 Hz, for which \<open>Stream.slide(5, 5)\<close> yields no window.\<close>

definition short_stream :: "trace list" where
  "short_stream = [example_trace ''MEM'' ''HHZ'' [1, 2, 3]]"

text \<open>A window in which station BBB has two channels with the letter E.\<close>

definition two_band_names :: "chan_id list" where
  "two_band_names =
     [(''BE'', ''AAA'', [], ''HHE''), (''BE'', ''BBB'', [], ''BHE''), (''BE'', ''BBB'', [], ''BHN''),
      (''BE'', ''BBB'', [], ''HHE''), (''BE'', ''BBB'', [], ''HHZ'')]"

subsection \<open>Notions that the statements use\<close>

text \<open>The root mean square of a list of samples.\<close>

definition rms :: "real list \<Rightarrow> real" where
  "rms xs = sqrt (np_mean (map (\<lambda>x. x\<^sup>2) xs))"

text \<open>The samples between the 1st and the 99th percentile, as line 290 selects them.\<close>

definition percentile_band :: "(real list \<Rightarrow> real \<Rightarrow> real) \<Rightarrow> real list \<Rightarrow> real list" where
  "percentile_band scp d = filter (\<lambda>x. x \<ge> scp d 1 \<and> x \<le> scp d 99) d"

text \<open>Looking a station and a component letter up in the index of components.\<close>

definition lookup2 :: "channel_index \<Rightarrow> string \<Rightarrow> char \<Rightarrow> nat option" where
  "lookup2 ci sta c = (case map_of ci sta of None \<Rightarrow> None | Some m \<Rightarrow> map_of m c)"

text \<open>The station and the component letter of a channel.\<close>

definition key_of :: "chan_id \<Rightarrow> string \<times> char" where
  "key_of name = (netsta_of name, comp_of name)"

text \<open>The channel at position \<open>i\<close> is the last of the window with its station and its
  component letter.\<close>

definition last_of_key :: "chan_id list \<Rightarrow> nat \<Rightarrow> bool" where
  "last_of_key names i =
     (i < length names \<and> key_of (names ! i) \<notin> set (map key_of (drop (Suc i) names)))"

text \<open>What the pooling is expected to leave in row \<open>k\<close>, and the property of an index that its
  entries point at the last channel of the station and letter they are filed under.\<close>

definition pooled_row :: "chan_id list \<Rightarrow> channel_index \<Rightarrow> real list list \<Rightarrow> nat \<Rightarrow> real list" where
  "pooled_row names es cur k =
     (case map_of es (netsta_of (names ! k)) of
        None \<Rightarrow> cur ! k
      | Some comps \<Rightarrow>
          (case (map_of comps CHR ''E'', map_of comps CHR ''N'') of
             (Some i_e, Some i_n) \<Rightarrow>
               if k = i_e \<or> k = i_n then row_mean (cur ! i_e) (cur ! i_n) else cur ! k
           | _ \<Rightarrow> cur ! k))"

definition well_indexed :: "chan_id list \<Rightarrow> channel_index \<Rightarrow> bool" where
  "well_indexed names es =
     (\<forall>sta comps c k. (sta, comps) \<in> set es \<and> map_of comps c = Some k
        \<longrightarrow> k < length names \<and> key_of (names ! k) = (sta, c) \<and> last_of_key names k)"

text \<open>
  The whitening policy in the words of the spec (4.5): decided for the pair of channels
  that is being correlated. \<open>wh\<close> stands for the whitening of one channel's spectrum.
\<close>

datatype whitening_policy = No_whitening | All_but_auto | Components_different

definition claimed_whitened :: "whitening_policy \<Rightarrow> chan_id \<Rightarrow> chan_id \<Rightarrow> bool" where
  "claimed_whitened pol a b =
     (case pol of
        No_whitening \<Rightarrow> False
      | All_but_auto \<Rightarrow> a \<noteq> b
      | Components_different \<Rightarrow> comp_of a \<noteq> comp_of b)"

definition claimed_spectra :: "(complex list \<Rightarrow> complex list) \<Rightarrow> whitening_policy \<Rightarrow> chan_id list
    \<Rightarrow> complex list list \<Rightarrow> nat \<times> nat \<Rightarrow> complex list \<times> complex list" where
  "claimed_spectra wh pol names raw ij =
     (if claimed_whitened pol (names ! fst ij) (names ! snd ij)
      then (wh (raw ! fst ij), wh (raw ! snd ij))
      else (raw ! fst ij, raw ! snd ij))"

text \<open>The two spectra that the correlation of the channels at positions \<open>i\<close> and \<open>j\<close> reads.\<close>

definition spectra_read :: "complex list list \<Rightarrow> nat \<times> nat \<Rightarrow> complex list \<times> complex list" where
  "spectra_read ffts ij = (ffts ! fst ij, ffts ! snd ij)"

text \<open>The keys and lengths of the correlations of one band.\<close>

definition corr_lengths :: "error + (string \<times> real list) list \<Rightarrow> (string \<times> nat) list" where
  "corr_lengths r = (case r of Inl e \<Rightarrow> [] | Inr c \<Rightarrow> map (\<lambda>kc. (fst kc, length (snd kc))) c)"

section \<open>Results\<close>

subsection \<open>Sequencing\<close>

lemma on_ok_Inr [simp]: "on_ok (Inr v) f = f v"
  by (simp add: on_ok_def)

lemma on_ok_Inl [simp]: "on_ok (Inl e) f = Inl e"
  by (simp add: on_ok_def)

lemma on_ok_return [simp]: "on_ok r Inr = r"
  by (cases r) simp_all

lemma fold_ok_single: "fold_ok f [x] s = f x s"
  by (cases "f x s") simp_all

lemma each_ok_all: "(\<And>x. x \<in> set xs \<Longrightarrow> f x = Inr (g x)) \<Longrightarrow> each_ok f xs = Inr (map g xs)"
  by (induction xs) simp_all

subsection \<open>Results about the length stage\<close>

lemma fold_max_ge: "a \<le> fold max xs (a::nat)"
  by (induction xs arbitrary: a) (auto intro: order_trans [OF max.cobounded2])

lemma fold_max_upper: "x \<in> set xs \<Longrightarrow> x \<le> fold max xs (a::nat)"
proof (induction xs arbitrary: a)
  case Nil
  then show ?case by simp
next
  case (Cons y ys)
  show ?case
  proof (cases "x = y")
    case True
    have "y \<le> max y a" by simp
    also have "\<dots> \<le> fold max ys (max y a)" by (rule fold_max_ge)
    finally show ?thesis using True by simp
  next
    case False
    with Cons.prems have "x \<in> set ys" by simp
    then show ?thesis using Cons.IH by simp
  qed
qed

lemma fold_max_mem: "fold max xs (a::nat) \<in> insert a (set xs)"
proof (induction xs arbitrary: a)
  case Nil
  then show ?case by simp
next
  case (Cons y ys)
  have "max y a = y \<or> max y a = a" by (simp add: max_def)
  with Cons.IH [of "max y a"] show ?case by auto
qed

lemma base_npts_upper: "tr \<in> set tmp \<Longrightarrow> npts tr \<le> base_npts tmp"
  unfolding base_npts_def by (rule fold_max_upper) simp

lemma base_npts_attained:
  assumes "tmp \<noteq> []"
  shows "\<exists>tr \<in> set tmp. npts tr = base_npts tmp"
proof (cases "base_npts tmp \<in> set (map npts tmp)")
  case True
  then show ?thesis by auto
next
  case False
  with fold_max_mem [of "map npts tmp" 0] have z: "base_npts tmp = 0"
    by (simp add: base_npts_def)
  from assms obtain tr where tr: "tr \<in> set tmp" by (cases tmp) auto
  with base_npts_upper [OF tr] z show ?thesis by auto
qed

lemma drop_short_nonempty: "tmp \<noteq> [] \<Longrightarrow> drop_short (base_npts tmp) tmp \<noteq> []"
  using base_npts_attained [of tmp] by (auto simp: drop_short_def filter_empty_conv)

lemma length_stage_eq:
  assumes "tmp \<noteq> []"
  shows "length_stage ex p tmp =
    (if real (base_npts tmp) \<le> lag_threshold ex p then None
     else Some (filter (\<lambda>tr. npts tr = base_npts tmp) tmp))"
  using drop_short_nonempty [OF assms]
  by (simp add: length_stage_def Let_def) (simp add: drop_short_def)

lemma select_channels_eq:
  assumes "remove_gapped gaps tmp \<noteq> []"
  shows "select_channels ex p gaps tmp =
    (if real (base_npts (remove_gapped gaps tmp)) \<le> lag_threshold ex p then None
     else Some (filter (\<lambda>tr. npts tr = base_npts (remove_gapped gaps tmp)) (remove_gapped gaps tmp)))"
  using assms length_stage_eq [OF assms, of ex p] by (simp add: select_channels_def Let_def)

text \<open>When the operations on floats do not round, the bound of line 268 is
  \<open>2 * maxlag * sampling_rate + 1\<close>.\<close>

lemma lag_threshold_exact:
  assumes "fl_mul ex = (\<lambda>a b. a * b)" and "fl_add ex = (\<lambda>a b. a + b)"
  shows "lag_threshold ex p = 2 * maxlag p * goal_sampling_rate p + 1"
  by (simp add: lag_threshold_def assms)

lemma process_window_skipped:
  assumes "tmp0 \<noteq> []"
    and "select_channels ex p (get_gaps ex (stream_sort ex tmp0)) (stream_sort ex tmp0) = None"
  shows "process_window ex p filters dt tmp0 ac = Inr ac"
  using assms by (simp add: process_window_def Let_def)

lemma process_window_kept:
  assumes "tmp0 \<noteq> []"
    and "select_channels ex p (get_gaps ex (stream_sort ex tmp0)) (stream_sort ex tmp0) = Some sel"
    and "sel \<noteq> []" and "\<forall>tr \<in> set sel. npts tr = b"
  shows "process_window ex p filters dt tmp0 ac =
     correlate_traces ex p filters dt (next_fast_len ex b) (starttime (hd sel))
       (normalise_traces ex p sel) ac"
proof -
  from assms(3) obtain tr0 trs where s: "sel = tr0 # trs" by (cases sel) auto
  with assms(4) have "npts tr0 = b" by simp
  then show ?thesis using assms(1,2) s by (simp add: process_window_def Let_def)
qed

lemma process_window_long_enough:
  assumes "tmp0 \<noteq> []" and "tmp = stream_sort ex tmp0"
    and "kept = remove_gapped (get_gaps ex tmp) tmp" and "kept \<noteq> []"
    and "sel = filter (\<lambda>tr. npts tr = base_npts kept) kept"
    and "real (base_npts kept) > lag_threshold ex p"
  shows "select_channels ex p (get_gaps ex tmp) tmp = Some sel \<and> sel \<noteq> [] \<and>
     process_window ex p filters dt tmp0 ac =
       correlate_traces ex p filters dt (next_fast_len ex (base_npts kept)) (starttime (hd sel))
         (normalise_traces ex p sel) ac"
proof -
  from assms(3,4) have ne: "remove_gapped (get_gaps ex tmp) tmp \<noteq> []" by simp
  have s: "select_channels ex p (get_gaps ex tmp) tmp = Some sel"
    using select_channels_eq [OF ne, of ex p] assms(3,5,6) by simp
  have n: "sel \<noteq> []"
    using drop_short_nonempty [OF assms(4)] assms(5) by (simp add: drop_short_def)
  have a: "\<forall>tr \<in> set sel. npts tr = base_npts kept"
    using assms(5) by simp
  from s assms(2) have s': "select_channels ex p (get_gaps ex (stream_sort ex tmp0))
      (stream_sort ex tmp0) = Some sel" by simp
  from process_window_kept [OF assms(1) s' n a] s n show ?thesis by simp
qed

subsection \<open>The stand-ins and the example windows, step by step\<close>

lemma example_ext_fields:
  "fl_add (example_ext g s w j) a b = a + b"
  "fl_sub (example_ext g s w j) a b = a - b"
  "fl_mul (example_ext g s w j) a b = a * b"
  "fl_div (example_ext g s w j) a b = a / b"
  "nan (example_ext g s w j) = 0"
  "is_next_job (example_ext g s w j) calls = (calls = [])"
  "get_next_job (example_ext g s w j) calls = j"
  "preprocess (example_ext g s w j) stations comps goal_day = s"
  "slide (example_ext g s w j) st len step = w"
  "stream_sort (example_ext g s w j) tmp = tmp"
  "get_gaps (example_ext g s w j) tmp = g"
  "next_fast_len (example_ext g s w j) n = n"
  "scoreatpercentile (example_ext g s w j) = linear_percentile"
  "taper (example_ext g s w j) d = d"
  "strftime (example_ext g s w j) ''%Y-%m-%d'' t = ''2020-01-01''"
  "strftime (example_ext g s w j) ''%Y-%m-%d %H:%M:%S'' t = ''2020-01-01 00:00:00''"
  "ifft (example_ext g s w j) row nfft = row"
  "whiten2 (example_ext g s w j) ffts nfft l h p1 p2 psds wt = ffts"
  "fftfreq (example_ext g s w j) n spacing
     = map (\<lambda>k. (if k < (n + 1) div 2 then real k else real k - real n) / (real n * spacing))
         [0 ..< n]"
  by (simp_all add: example_ext_def)

lemma example_npts: "npts (example_trace sta chan d) = length d"
  by (simp add: npts_def example_trace_def)

lemma example_starttime: "starttime (example_trace sta chan d) = 0"
  by (simp add: example_trace_def)

lemma example_lag_threshold:
  "lag_threshold (example_ext g s w j) example_params = 3"
  "lag_threshold (example_ext g s w j) (example_params\<lparr>maxlag := 2\<rparr>) = 5"
  "lag_threshold (example_ext g s w j) auto_params = 3"
  "lag_threshold (example_ext g s w j) four_second_params = 3"
  by (simp_all add: lag_threshold_def example_ext_fields example_params_def auto_params_def
      four_second_params_def)

lemma example_freq_vec:
  "freq_vec (example_ext g s w j) 5 1 = [0, 1 / 5]"
  "freq_vec (example_ext g s w j) 8 1 = [0, 1 / 8, 1 / 4, 3 / 8]"
  by (simp_all add: freq_vec_def example_ext_fields upt_rec)

lemma example_freq_sel:
  "freq_sel (example_ext g s w j) 5 1 (1 / 10) (2 / 5) = [1]"
  "freq_sel (example_ext g s w j) 8 1 (1 / 10) (2 / 5) = [1, 2, 3]"
  "freq_sel (example_ext g s w j) 5 1 (3 / 5) (4 / 5) = []"
  unfolding freq_sel_def Let_def example_freq_vec by (simp_all add: upt_rec)

lemma example_whiten_bounds:
  "whiten_bounds (example_ext g s w j) 5 1 example_filter = Inr (1, 2, 1, 1)"
  by (simp add: whiten_bounds_def example_filter_def example_freq_sel napod_def Let_def
      example_ext_fields)

lemma example_bounds_8:
  "whiten_bounds (example_ext g s w j) 8 1 example_filter = Inr (1, 4, 1, 3)"
  by (simp add: whiten_bounds_def example_filter_def example_freq_sel napod_def Let_def
      example_ext_fields)

lemma example_demean:
  "demean [1, 2, 3, 4, 5] = [- 2, - 1, 0, 1, 2]"
  "demean [5, 4, 3, 2, 1] = [2, 1, 0, - 1, - 2]"
  by (simp_all add: demean_def np_mean_def)

lemma example_normalise:
  assumes "windsorizing p = 0"
  shows "normalise_traces (example_ext g s w j) p [example_trace sta chan d]
     = [example_trace sta chan (demean d)]"
    "normalise_traces (example_ext g s w j) p [example_trace sta chan d, example_trace sta' chan' d']
     = [example_trace sta chan (demean d), example_trace sta' chan' (demean d')]"
  by (simp_all add: normalise_traces_def taper_traces_def windsorize_def detrend_demean_def
      windsorize_trace_def assms example_ext_fields example_trace_def)

lemma example_fmt: "fmt_02i 1 = ''01''"
  by code_simp

lemma example_filter_step:
  assumes "autocorr p = a"
  shows "stored_ids (filter_step (example_ext g s w j) p 5 1 dat psds [(key, i0, i1)]
      ''2020-01-01'' ''2020-01-01 00:00:00'' example_filter [])
   = [(key @ ''_01_2020-01-01'', 1)]"
  by (simp add: filter_step_def filter_corr_def example_whiten_bounds myCorr2_def store_corr_def
      Let_def stored_ids_def) (simp add: example_filter_def example_fmt)

lemma example_pool: "pool_psds [(sta, [(CHR ''Z'', k)])] psds = Inr psds"
  "pool_psds [(sta, [(CHR ''Z'', k)]), (sta', [(CHR ''Z'', k')])] psds = Inr psds"
  by (simp_all add: pool_psds_def pool_station_def)

lemma two_channel_index:
  "build_channel_index 0 [(''BE'', ''MEM'', [], ''HHZ''), (''BE'', ''UCC'', [], ''HHZ'')] []
      = Inr [(''BE.MEM'', [(CHR ''Z'', 0)]), (''BE.UCC'', [(CHR ''Z'', 1)])]"
  by (simp add: index_channel_def last_char_def)

lemma two_channel_pairs:
  assumes "components_to_compute p = [''ZZ'']" and "autocorr p = False"
  shows "pair_index p [(''BE'', ''MEM'', [], ''HHZ''), (''BE'', ''UCC'', [], ''HHZ'')]
      = Inr [(''BE.MEM_BE.UCC_ZZ'', 0, 1)]"
  by (simp add: pair_index_def pair_entry_def last_char_def pair_id_def assms)

lemma two_channel_names:
  "map trace_id [example_trace ''MEM'' ''HHZ'' d, example_trace ''UCC'' ''HHZ'' d']
      = [(''BE'', ''MEM'', [], ''HHZ''), (''BE'', ''UCC'', [], ''HHZ'')]"
  by (simp add: trace_id_def example_trace_def)

lemma two_channel_correlate:
  "stored_ids (correlate_traces (example_ext g s w j) example_params [example_filter] 1 5 0
      [example_trace ''MEM'' ''HHZ'' d, example_trace ''UCC'' ''HHZ'' d'] [])
   = [(''BE.MEM_BE.UCC_ZZ_01_2020-01-01'', 1)]"
proof -
  have p: "components_to_compute example_params = [''ZZ'']" "autocorr example_params = False"
    by (simp_all add: example_params_def)
  have k: "''BE.MEM_BE.UCC_ZZ'' @ ''_01_2020-01-01'' = ''BE.MEM_BE.UCC_ZZ_01_2020-01-01''"
    by simp
  show ?thesis
    unfolding correlate_traces_def Let_def two_channel_names two_channel_index on_ok_Inr
      example_pool two_channel_pairs [OF p] example_ext_fields fold_ok_single
      example_filter_step [OF p(2)] k
    by (rule refl)
qed

lemma example_window_select:
  "remove_gapped [] example_window = example_window"
  "base_npts example_window = 5"
  "filter (\<lambda>tr. npts tr = 5) example_window
     = [example_trace ''MEM'' ''HHZ'' [1, 2, 3, 4, 5], example_trace ''UCC'' ''HHZ'' [5, 4, 3, 2, 1]]"
  by (simp_all add: remove_gapped_def channels_to_remove_def base_npts_def example_window_def
      example_trace_def npts_def)

text \<open>
  C3. For a window that still has traces after the channels with gaps were removed: the
  common sample count is the largest sample count present, and the traces of another count
  are dropped. The window is skipped if and only if that count is not strictly greater than
  the bound of line 268, which is \<open>maxlag * sampling_rate * 2 + 1\<close> as Python computes it in
  floats (\<open>lag_threshold\<close>; it is \<open>2 * maxlag * sampling_rate + 1\<close> where the operations do not
  round). A skipped window leaves the stored correlations as they were; a window that is
  not skipped goes on with exactly the traces of the common count: they are normalised and
  correlated.
\<close>

theorem window_skipped_iff_too_short:
  assumes "tmp0 \<noteq> []" and "tmp = stream_sort ex tmp0"
    and "kept = remove_gapped (get_gaps ex tmp) tmp" and "kept \<noteq> []"
    and "sel = filter (\<lambda>tr. npts tr = base_npts kept) kept"
  shows "(\<forall>tr \<in> set kept. npts tr \<le> base_npts kept) \<and>
    (\<exists>tr \<in> set kept. npts tr = base_npts kept) \<and>
    (select_channels ex p (get_gaps ex tmp) tmp = None
       \<longleftrightarrow> \<not> real (base_npts kept) > lag_threshold ex p) \<and>
    (\<not> real (base_npts kept) > lag_threshold ex p \<longrightarrow>
       process_window ex p filters dt tmp0 ac = Inr ac) \<and>
    (real (base_npts kept) > lag_threshold ex p \<longrightarrow>
       select_channels ex p (get_gaps ex tmp) tmp = Some sel \<and> sel \<noteq> [] \<and>
       process_window ex p filters dt tmp0 ac =
         correlate_traces ex p filters dt (next_fast_len ex (base_npts kept)) (starttime (hd sel))
           (normalise_traces ex p sel) ac)"
proof -
  have upper: "\<forall>tr \<in> set kept. npts tr \<le> base_npts kept"
    by (simp add: base_npts_upper)
  have attained: "\<exists>tr \<in> set kept. npts tr = base_npts kept"
    by (rule base_npts_attained [OF assms(4)])
  from assms(3,4) have ne: "remove_gapped (get_gaps ex tmp) tmp \<noteq> []" by simp
  have sel: "select_channels ex p (get_gaps ex tmp) tmp =
      (if real (base_npts kept) \<le> lag_threshold ex p then None else Some sel)"
    using select_channels_eq [OF ne, of ex p] assms(3,5) by simp
  have iff: "select_channels ex p (get_gaps ex tmp) tmp = None
       \<longleftrightarrow> \<not> real (base_npts kept) > lag_threshold ex p"
    using sel by (simp add: not_less)
  have skip: "process_window ex p filters dt tmp0 ac = Inr ac"
    if "\<not> real (base_npts kept) > lag_threshold ex p"
  proof (rule process_window_skipped [OF assms(1)])
    show "select_channels ex p (get_gaps ex (stream_sort ex tmp0)) (stream_sort ex tmp0) = None"
      using iff that assms(2) by simp
  qed
  have keep: "select_channels ex p (get_gaps ex tmp) tmp = Some sel \<and> sel \<noteq> [] \<and>
       process_window ex p filters dt tmp0 ac =
         correlate_traces ex p filters dt (next_fast_len ex (base_npts kept)) (starttime (hd sel))
           (normalise_traces ex p sel) ac"
    if "real (base_npts kept) > lag_threshold ex p"
    by (rule process_window_long_enough [OF assms that])
  from upper attained iff skip keep show ?thesis
    by blast
qed

theorem window_skipped_iff_too_short_witness:
  "remove_gapped [] example_window = example_window \<and>
   base_npts example_window = 5 \<and>
   lag_threshold (example_ext [] [] [] []) example_params = 3 \<and>
   select_channels (example_ext [] [] [] []) example_params [] example_window
     = Some [example_trace ''MEM'' ''HHZ'' [1, 2, 3, 4, 5], example_trace ''UCC'' ''HHZ'' [5, 4, 3, 2, 1]] \<and>
   stored_ids (process_window (example_ext [] [] [] []) example_params [example_filter] 1
     example_window []) = [(''BE.MEM_BE.UCC_ZZ_01_2020-01-01'', 1)] \<and>
   lag_threshold (example_ext [] [] [] []) (example_params\<lparr>maxlag := 2\<rparr>) = 5 \<and>
   select_channels (example_ext [] [] [] []) (example_params\<lparr>maxlag := 2\<rparr>) [] example_window = None \<and>
   process_window (example_ext [] [] [] []) (example_params\<lparr>maxlag := 2\<rparr>) [example_filter] 1
     example_window [] = Inr []"
proof -
  let ?ex = "example_ext [] [] [] []"
  let ?sel = "[example_trace ''MEM'' ''HHZ'' [1, 2, 3, 4, 5], example_trace ''UCC'' ''HHZ'' [5, 4, 3, 2, 1]]"
  have e: "example_window = stream_sort ?ex example_window"
    "get_gaps ?ex example_window = []"
    by (simp_all add: example_ext_fields)
  have k: "example_window = remove_gapped (get_gaps ?ex example_window) example_window"
    by (simp add: e(2) example_window_select)
  have ne: "example_window \<noteq> []"
    by (simp add: example_window_def)
  have f: "?sel = filter (\<lambda>tr. npts tr = base_npts example_window) example_window"
    by (simp add: example_window_select)
  have w: "windsorizing example_params = 0"
    by (simp add: example_params_def)
  have st: "starttime (hd ?sel) = 0"
    by (simp add: example_trace_def)
  have c: "stored_ids (correlate_traces ?ex example_params [example_filter] 1
      (next_fast_len ?ex (base_npts example_window)) (starttime (hd ?sel))
      (normalise_traces ?ex example_params ?sel) []) = [(''BE.MEM_BE.UCC_ZZ_01_2020-01-01'', 1)]"
    unfolding example_normalise [OF w] example_window_select example_ext_fields st
    by (rule two_channel_correlate)
  show ?thesis
    using window_skipped_iff_too_short [OF ne e(1) k ne f, of example_params "[example_filter]" 1 "[]"]
      window_skipped_iff_too_short [OF ne e(1) k ne f, of "example_params\<lparr>maxlag := 2\<rparr>"
        "[example_filter]" 1 "[]"] c
    by (simp add: example_window_select e(2) example_lag_threshold)
qed

subsection \<open>Results about the channels with gaps\<close>









subsection \<open>The example window with a gap, step by step\<close>













subsection \<open>Results about the pairs\<close>

lemma set_map_Pair_nth: "set (map (Pair x) ys) = {(x, ys ! j) |j. j < length ys}"
proof (intro set_eqI iffI)
  fix p assume "p \<in> set (map (Pair x) ys)"
  then obtain y where "y \<in> set ys" "p = (x, y)" by auto
  then show "p \<in> {(x, ys ! j) |j. j < length ys}" by (auto simp: in_set_conv_nth)
next
  fix p assume "p \<in> {(x, ys ! j) |j. j < length ys}"
  then obtain j where "j < length ys" "p = (x, ys ! j)" by auto
  then show "p \<in> set (map (Pair x) ys)" by simp
qed

lemma set_combinations2:
  "set (combinations2 xs) = {(xs ! i, xs ! j) |i j. i < j \<and> j < length xs}"
proof (induction xs)
  case Nil
  then show ?case by simp
next
  case (Cons x xs)
  have "{((x # xs) ! i, (x # xs) ! j) |i j. i < j \<and> j < length (x # xs)}
      = {(x, xs ! j) |j. j < length xs} \<union> {(xs ! i, xs ! j) |i j. i < j \<and> j < length xs}"
    (is "?L = ?A \<union> ?B")
  proof (intro set_eqI iffI)
    fix p assume "p \<in> ?L"
    then obtain i j where p: "p = ((x # xs) ! i, (x # xs) ! j)" and ij: "i < j" "j < length (x # xs)"
      by auto
    from ij obtain j' where j': "j = Suc j'" by (cases j) auto
    show "p \<in> ?A \<union> ?B"
    proof (cases i)
      case 0
      then show ?thesis using p ij j' by auto
    next
      case (Suc i')
      then show ?thesis using p ij j' by auto
    qed
  next
    fix p assume "p \<in> ?A \<union> ?B"
    then show "p \<in> ?L"
    proof
      assume "p \<in> ?A"
      then obtain j where "p = (x, xs ! j)" "j < length xs" by auto
      then have "p = ((x # xs) ! 0, (x # xs) ! Suc j) \<and> 0 < Suc j \<and> Suc j < length (x # xs)" by simp
      then show ?thesis by blast
    next
      assume "p \<in> ?B"
      then obtain i j where "p = (xs ! i, xs ! j)" "i < j" "j < length xs" by auto
      then have "p = ((x # xs) ! Suc i, (x # xs) ! Suc j) \<and> Suc i < Suc j \<and> Suc j < length (x # xs)" by simp
      then show ?thesis by blast
    qed
  qed
  moreover have "set (map (Pair x) xs) = {(x, xs ! j) |j. j < length xs}"
    by (rule set_map_Pair_nth)
  ultimately show ?case using Cons.IH by simp
qed

lemma set_combinations2_wr:
  "set (combinations2_wr xs) = {(xs ! i, xs ! j) |i j. i \<le> j \<and> j < length xs}"
proof (induction xs)
  case Nil
  then show ?case by simp
next
  case (Cons x xs)
  have "{((x # xs) ! i, (x # xs) ! j) |i j. i \<le> j \<and> j < length (x # xs)}
      = {(x, (x # xs) ! j) |j. j < length (x # xs)} \<union> {(xs ! i, xs ! j) |i j. i \<le> j \<and> j < length xs}"
    (is "?L = ?A \<union> ?B")
  proof (intro set_eqI iffI)
    fix p assume "p \<in> ?L"
    then obtain i j where p: "p = ((x # xs) ! i, (x # xs) ! j)" and ij: "i \<le> j" "j < length (x # xs)"
      by auto
    show "p \<in> ?A \<union> ?B"
    proof (cases i)
      case 0
      then show ?thesis using p ij by auto
    next
      case (Suc i')
      then obtain j' where j': "j = Suc j'" using ij by (cases j) auto
      then show ?thesis using p ij Suc by auto
    qed
  next
    fix p assume "p \<in> ?A \<union> ?B"
    then show "p \<in> ?L"
    proof
      assume "p \<in> ?A"
      then obtain j where "p = (x, (x # xs) ! j)" "j < length (x # xs)" by auto
      then have "p = ((x # xs) ! 0, (x # xs) ! j) \<and> 0 \<le> j \<and> j < length (x # xs)" by simp
      then show ?thesis by blast
    next
      assume "p \<in> ?B"
      then obtain i j where "p = (xs ! i, xs ! j)" "i \<le> j" "j < length xs" by auto
      then have "p = ((x # xs) ! Suc i, (x # xs) ! Suc j) \<and> Suc i \<le> Suc j \<and> Suc j < length (x # xs)" by simp
      then show ?thesis by blast
    qed
  qed
  moreover have "set (map (Pair x) (x # xs)) = ?A"
    by (rule set_map_Pair_nth)
  moreover have "set (combinations2_wr (x # xs))
      = set (map (Pair x) (x # xs)) \<union> set (combinations2_wr xs)"
    by simp
  ultimately show ?case by (simp only: Cons.IH)
qed

lemma list_index_nth: "distinct xs \<Longrightarrow> i < length xs \<Longrightarrow> list_index xs (xs ! i) = Inr i"
proof (induction xs arbitrary: i)
  case Nil
  then show ?case by simp
next
  case (Cons y ys)
  show ?case
  proof (cases i)
    case 0
    then show ?thesis by simp
  next
    case (Suc k)
    with Cons.prems have "k < length ys" "ys ! k \<noteq> y" by auto
    with Cons show ?thesis using Suc by (simp add: on_ok_def)
  qed
qed

lemma pair_entry_nth:
  assumes "distinct names" "i < length names" "j < length names"
    and "\<forall>n \<in> set names. snd (snd (snd n)) \<noteq> []"
  shows "pair_entry ctc names (names ! i, names ! j) =
     Inr (if [comp_of (names ! i), comp_of (names ! j)] \<in> set ctc
          then [(pair_id (names ! i) (names ! j) [comp_of (names ! i), comp_of (names ! j)], i, j)]
          else [])"
proof -
  have "snd (snd (snd (names ! i))) \<noteq> []" "snd (snd (snd (names ! j))) \<noteq> []"
    using assms by auto
  then show ?thesis
    using list_index_nth [OF assms(1,2)] list_index_nth [OF assms(1,3)]
    by (simp add: pair_entry_def last_char_def on_ok_def comp_of_def Let_def)
qed

text \<open>
  C6. When the channels of the window have distinct ids (and channel codes that are not
  empty), the pair index holds exactly the pairs of positions \<open>i < j\<close> (and \<open>i = j\<close> too
  if and only if \<open>autocorr\<close> is set) whose two component letters, in this order, form a code
  of \<open>components_to_compute\<close>; nothing else is handed to the correlation.
\<close>

theorem pair_index_exact:
  assumes d: "distinct names" and ne: "\<forall>n \<in> set names. snd (snd (snd n)) \<noteq> []"
  shows "\<exists>es. pair_index p names = Inr es \<and>
    set es =
      {(pair_id (names ! i) (names ! j) [comp_of (names ! i), comp_of (names ! j)], i, j) |i j.
         j < length names \<and> (i < j \<or> (autocorr p \<and> i = j)) \<and>
         [comp_of (names ! i), comp_of (names ! j)] \<in> set (components_to_compute p)}"
    (is "\<exists>es. _ \<and> set es = ?W")
proof -
  let ?ctc = "components_to_compute p"
  define it where "it = (if autocorr p then combinations2_wr names else combinations2 names)"
  define g where "g = (\<lambda>pr. case pair_entry ?ctc names pr of Inr v \<Rightarrow> v | Inl e \<Rightarrow> [])"
  have its: "set it = {(names ! i, names ! j) |i j. j < length names \<and> (i < j \<or> (autocorr p \<and> i = j))}"
  proof (cases "autocorr p")
    case True
    then show ?thesis unfolding it_def by (auto simp: set_combinations2_wr le_less)
  next
    case False
    then show ?thesis unfolding it_def by (auto simp: set_combinations2)
  qed
  have gnth: "g (names ! i, names ! j) =
       (if [comp_of (names ! i), comp_of (names ! j)] \<in> set ?ctc
        then [(pair_id (names ! i) (names ! j) [comp_of (names ! i), comp_of (names ! j)], i, j)]
        else [])"
      and oknth: "pair_entry ?ctc names (names ! i, names ! j) = Inr (g (names ! i, names ! j))"
    if "i < length names" "j < length names" for i j
    using pair_entry_nth [OF d that ne, of ?ctc] by (simp_all add: g_def)
  have ok: "pair_entry ?ctc names pr = Inr (g pr)" if "pr \<in> set it" for pr
  proof -
    from that its obtain i j where "pr = (names ! i, names ! j)" "j < length names" "i \<le> j"
      by auto
    then show ?thesis using oknth [of i j] by simp
  qed
  have e: "each_ok (pair_entry ?ctc names) it = Inr (map g it)"
    by (rule each_ok_all) (rule ok)
  have pi: "pair_index p names = Inr (concat (map g it))"
    using e unfolding it_def by (cases "autocorr p") (simp_all add: pair_index_def on_ok_def)
  have "set (concat (map g it)) = ?W"
  proof (intro set_eqI iffI)
    fix x assume "x \<in> set (concat (map g it))"
    then obtain pr where pr: "pr \<in> set it" and x: "x \<in> set (g pr)" by auto
    from pr its obtain i j where ij: "pr = (names ! i, names ! j)" "j < length names"
      "i < j \<or> (autocorr p \<and> i = j)" by auto
    then have "i < length names" by auto
    from gnth [OF this ij(2)] x ij
    show "x \<in> ?W" by (auto split: if_splits)
  next
    fix x assume "x \<in> ?W"
    then obtain i j where ij: "j < length names" "i < j \<or> (autocorr p \<and> i = j)"
      "[comp_of (names ! i), comp_of (names ! j)] \<in> set ?ctc"
      "x = (pair_id (names ! i) (names ! j) [comp_of (names ! i), comp_of (names ! j)], i, j)"
      by blast
    then have i: "i < length names" by auto
    have "(names ! i, names ! j) \<in> set it" using its ij by blast
    moreover have "x \<in> set (g (names ! i, names ! j))"
      using gnth [OF i ij(1)] ij by simp
    ultimately have "\<exists>pr \<in> set it. x \<in> set (g pr)" by blast
    then show "x \<in> set (concat (map g it))" by simp
  qed
  with pi show ?thesis by simp
qed

theorem pair_index_exact_witness:
  "distinct example_names \<and>
   pair_index example_params example_names = Inr [(''BE.MEM_BE.UCC_ZZ'', 0, 2)] \<and>
   {(pair_id (example_names ! i) (example_names ! j)
       [comp_of (example_names ! i), comp_of (example_names ! j)], i, j) |i j.
      j < length example_names \<and> (i < j \<or> (autocorr example_params \<and> i = j)) \<and>
      [comp_of (example_names ! i), comp_of (example_names ! j)]
        \<in> set (components_to_compute example_params)}
     = {(''BE.MEM_BE.UCC_ZZ'', 0, 2)}"
proof -
  have d: "distinct example_names"
    by (simp add: example_names_def)
  have ne: "\<forall>n \<in> set example_names. snd (snd (snd n)) \<noteq> []"
    by (simp add: example_names_def)
  have r: "pair_index example_params example_names = Inr [(''BE.MEM_BE.UCC_ZZ'', 0, 2)]"
    by (simp add: pair_index_def pair_entry_def last_char_def on_ok_def pair_id_def
        example_params_def example_names_def)
  from pair_index_exact [OF d ne, of example_params] r d show ?thesis
    by auto
qed

subsection \<open>Results about the amplitude normalisation\<close>

lemma sum_sq_dev:
  "sum_list (map (\<lambda>x. (x - c)\<^sup>2) xs)
     = sum_list (map (\<lambda>x. x\<^sup>2) xs) - 2 * c * sum_list xs + real (length xs) * c\<^sup>2"
  by (induction xs) (simp_all add: power2_eq_square algebra_simps)

lemma std_le_rms:
  assumes "np_std xs = Some s"
  shows "0 \<le> s \<and> s \<le> rms xs"
proof -
  from assms have ne: "xs \<noteq> []" by (auto simp: np_std_def split: if_splits)
  let ?n = "real (length xs)"
  let ?m = "np_mean xs"
  have n: "?n > 0" using ne by simp
  have s: "s = sqrt (np_mean (map (\<lambda>x. (x - ?m)\<^sup>2) xs))"
    using assms ne by (simp add: np_std_def)
  have "?n * ?m = sum_list xs" using n by (simp add: np_mean_def)
  then have "2 * ?m * sum_list xs = 2 * ?n * ?m\<^sup>2"
    by (simp add: power2_eq_square algebra_simps)
  then have "sum_list (map (\<lambda>x. (x - ?m)\<^sup>2) xs) = sum_list (map (\<lambda>x. x\<^sup>2) xs) - ?n * ?m\<^sup>2"
    using sum_sq_dev [of ?m xs] by simp
  moreover have "?n * ?m\<^sup>2 \<ge> 0" by simp
  ultimately have "sum_list (map (\<lambda>x. (x - ?m)\<^sup>2) xs) \<le> sum_list (map (\<lambda>x. x\<^sup>2) xs)"
    by linarith
  then have "np_mean (map (\<lambda>x. (x - ?m)\<^sup>2) xs) \<le> np_mean (map (\<lambda>x. x\<^sup>2) xs)"
    using n by (simp add: np_mean_def divide_right_mono)
  moreover have "0 \<le> sum_list (map (\<lambda>x. (x - ?m)\<^sup>2) xs)"
    by (rule sum_list_nonneg) auto
  then have "0 \<le> np_mean (map (\<lambda>x. (x - ?m)\<^sup>2) xs)"
    by (simp add: np_mean_def)
  ultimately show ?thesis unfolding s rms_def by simp
qed

lemma np_clip_abs: "0 \<le> r \<Longrightarrow> \<bar>np_clip (- r) r x\<bar> \<le> r"
  by (auto simp: np_clip_def min_def max_def)

lemma windsorize_trace_clip:
  assumes "k > 0" and "np_std (percentile_band (scoreatpercentile ex) d) = Some s"
  shows "windsorize_trace ex k d = map (np_clip (- (s * k)) (s * k)) d"
proof -
  from assms(1) have "k \<noteq> - 1" "k \<noteq> 0" by simp_all
  with assms(2) show ?thesis
    by (simp add: windsorize_trace_def Let_def percentile_band_def)
qed

lemma windsorize_trace_nan:
  assumes "k > 0" and "percentile_band (scoreatpercentile ex) d = []"
  shows "windsorize_trace ex k d = map (\<lambda>x. nan ex) d"
proof -
  from assms(1) have "k \<noteq> - 1" "k \<noteq> 0" by simp_all
  moreover from assms(2) have "np_std (percentile_band (scoreatpercentile ex) d) = None"
    by (simp add: np_std_def)
  ultimately show ?thesis
    by (simp add: windsorize_trace_def Let_def percentile_band_def)
qed

lemma normalise_traces_nth:
  assumes "i < length tmp"
  shows "normalise_traces ex p tmp ! i =
     (tmp ! i)\<lparr>data := taper ex (windsorize_trace ex (windsorizing p) (demean (data (tmp ! i))))\<rparr>"
  using assms
  by (simp add: normalise_traces_def taper_traces_def windsorize_def detrend_demean_def)

lemma length_normalise_traces: "length (normalise_traces ex p tmp) = length tmp"
  by (simp add: normalise_traces_def taper_traces_def windsorize_def detrend_demean_def)

text \<open>
  C4. The normalisation of lines 283--295 works on each trace of the window by itself: the
  samples \<open>d\<close> that enter the loop of lines 285--293 are the trace's own samples with their
  mean removed, and what the loop leaves is tapered. With \<open>windsorizing = -1\<close> the loop
  replaces every sample by its sign, with \<open>windsorizing = 0\<close> it leaves the samples
  unchanged, and with \<open>windsorizing = k > 0\<close> it clips every sample to the interval
  \<open>[-k s, k s]\<close>, where \<open>s\<close> is the standard deviation of the samples between the 1st and the
  99th percentile taken before clipping; \<open>s\<close> is at most their root mean square, so no
  sample exceeds \<open>k\<close> times that root mean square in magnitude. With no sample between the
  percentiles every sample becomes NaN.
\<close>

theorem windsorizing_modes:
  assumes "i < length tmp" and "d = demean (data (tmp ! i))" and "k = windsorizing p"
    and "band = percentile_band (scoreatpercentile ex) d"
    and "out = normalise_traces ex p tmp"
  shows "length out = length tmp \<and> trace_id (out ! i) = trace_id (tmp ! i) \<and>
    (k = - 1 \<longrightarrow> data (out ! i) = taper ex (map sgn d)) \<and>
    (k = 0 \<longrightarrow> data (out ! i) = taper ex d) \<and>
    (k > 0 \<and> band \<noteq> [] \<longrightarrow>
       (\<exists>s. np_std band = Some s \<and>
            data (out ! i) = taper ex (map (np_clip (- (s * k)) (s * k)) d) \<and>
            (\<forall>x \<in> set d. \<bar>np_clip (- (s * k)) (s * k) x\<bar> \<le> k * rms band))) \<and>
    (k > 0 \<and> band = [] \<longrightarrow> data (out ! i) = taper ex (map (\<lambda>x. nan ex) d))"
proof -
  have o: "data (out ! i) = taper ex (windsorize_trace ex k d)"
    using normalise_traces_nth [OF assms(1), of ex p] assms(2,3,5) by simp
  have l: "length out = length tmp"
    using assms(5) by (simp add: length_normalise_traces)
  have n: "trace_id (out ! i) = trace_id (tmp ! i)"
    using normalise_traces_nth [OF assms(1), of ex p] assms(5) by (simp add: trace_id_def)
  have sign: "data (out ! i) = taper ex (map sgn d)" if "k = - 1"
    using o that by (simp add: windsorize_trace_def)
  have same: "data (out ! i) = taper ex d" if "k = 0"
    using o that by (simp add: windsorize_trace_def)
  have clip: "\<exists>s. np_std band = Some s \<and>
            data (out ! i) = taper ex (map (np_clip (- (s * k)) (s * k)) d) \<and>
            (\<forall>x \<in> set d. \<bar>np_clip (- (s * k)) (s * k) x\<bar> \<le> k * rms band)"
    if a: "k > 0 \<and> band \<noteq> []"
  proof -
    from a obtain s where s: "np_std band = Some s" by (auto simp: np_std_def)
    from std_le_rms [OF s] have s0: "0 \<le> s" and sr: "s \<le> rms band" by auto
    have r0: "0 \<le> s * k" using s0 a by simp
    have "s * k \<le> k * rms band" using sr a by (simp add: mult.commute)
    with np_clip_abs [OF r0] have "\<forall>x \<in> set d. \<bar>np_clip (- (s * k)) (s * k) x\<bar> \<le> k * rms band"
      by (meson order_trans)
    moreover have "data (out ! i) = taper ex (map (np_clip (- (s * k)) (s * k)) d)"
      using o windsorize_trace_clip [of k ex d s] a s assms(4) by simp
    ultimately show ?thesis using s by blast
  qed
  have nans: "data (out ! i) = taper ex (map (\<lambda>x. nan ex) d)" if "k > 0 \<and> band = []"
    using o windsorize_trace_nan [of k ex d] that assms(4) by simp
  from l n sign same clip nans show ?thesis
    by blast
qed

lemma example_percentiles:
  "linear_percentile [- 7, - 1, 1, 7] 1 = - 341 / 50"
  "linear_percentile [- 7, - 1, 1, 7] 99 = 341 / 50"
  by (simp_all add: linear_percentile_def Let_def)

lemma example_band: "percentile_band linear_percentile [- 7, - 1, 1, 7] = [- 1, 1]"
  by (simp add: percentile_band_def example_percentiles)

lemma example_std: "np_std [- 1, 1] = Some 1"
  by (simp add: np_std_def np_mean_def)

lemma example_demean_centred: "demean [- 7, - 1, 1, 7] = [- 7, - 1, 1, 7]"
  by (simp add: demean_def np_mean_def)

theorem windsorizing_modes_witness:
  "demean [- 7, - 1, 1, 7] = [- 7, - 1, 1, 7] \<and>
   percentile_band linear_percentile [- 7, - 1, 1, 7] = [- 1, 1] \<and>
   rms [- 1, 1] = 1 \<and>
   map data (normalise_traces (example_ext [] [] [] []) (example_params\<lparr>windsorizing := 2\<rparr>)
     [example_trace ''MEM'' ''HHZ'' [- 7, - 1, 1, 7]]) = [[- 2, - 1, 1, 2]] \<and>
   map data (normalise_traces (example_ext [] [] [] []) (example_params\<lparr>windsorizing := - 1\<rparr>)
     [example_trace ''MEM'' ''HHZ'' [- 7, - 1, 1, 7]]) = [[- 1, - 1, 1, 1]] \<and>
   map data (normalise_traces (example_ext [] [] [] []) (example_params\<lparr>windsorizing := 0\<rparr>)
     [example_trace ''MEM'' ''HHZ'' [- 7, - 1, 1, 7]]) = [[- 7, - 1, 1, 7]]"
proof -
  let ?ex = "example_ext [] [] [] []"
  let ?tmp = "[example_trace ''MEM'' ''HHZ'' [- 7, - 1, 1, 7]]"
  have r: "rms [- 1, 1] = 1"
    by (simp add: rms_def np_mean_def)
  have i: "0 < length ?tmp" by simp
  have d: "[- 7, - 1, 1, 7] = demean (data (?tmp ! 0))"
    by (simp add: example_trace_def example_demean_centred)
  have b: "[- 1, 1] = percentile_band (scoreatpercentile ?ex) [- 7, - 1, 1, 7]"
    by (simp add: example_ext_fields example_band)
  have one: "map data out = [data (out ! 0)]" if "length out = length ?tmp" for out :: "trace list"
    using that by (cases out) simp_all
  have w: "windsorizing (example_params\<lparr>windsorizing := c\<rparr>) = c" for c
    by simp
  from windsorizing_modes [OF i d w [symmetric] b refl, of 2]
    windsorizing_modes [OF i d w [symmetric] b refl, of "- 1"]
    windsorizing_modes [OF i d w [symmetric] b refl, of 0]
  show ?thesis
    by (simp add: one example_std r np_clip_def example_ext_fields example_demean_centred
        example_band)
qed

subsection \<open>Results about the pooled spectra\<close>

lemma index_channel_lookup:
  assumes "snd (snd (snd name)) \<noteq> []"
  shows "\<exists>ci'. index_channel ci i name = Inr ci' \<and>
     (distinct (map fst ci) \<longrightarrow> distinct (map fst ci')) \<and>
     (\<forall>sta c. lookup2 ci' sta c =
        (if sta = netsta_of name \<and> c = comp_of name then Some i else lookup2 ci sta c))"
proof -
  obtain n1 s1 l1 c1 where name: "name = (n1, s1, l1, c1)" by (cases name) auto
  with assms have c1: "c1 \<noteq> []" by simp
  let ?sta = "n1 @ ''.'' @ s1"
  let ?comps = "case map_of ci ?sta of None \<Rightarrow> [] | Some m \<Rightarrow> m"
  let ?ci' = "AList.update ?sta (AList.update (last c1) i ?comps) ci"
  have "index_channel ci i name = Inr ?ci'"
    using c1 by (simp add: index_channel_def name last_char_def Let_def)
  moreover have "distinct (map fst ci) \<longrightarrow> distinct (map fst ?ci')"
    by (simp add: AList.distinct_update)
  moreover have "lookup2 ?ci' sta c =
        (if sta = netsta_of name \<and> c = comp_of name then Some i else lookup2 ci sta c)" for sta c
    by (auto simp: lookup2_def AList.update_conv' netsta_of_def comp_of_def name split: option.splits)
  ultimately show ?thesis by blast
qed

lemma last_of_key_Cons:
  "last_of_key (a # as) 0 \<longleftrightarrow> key_of a \<notin> set (map key_of as)"
  "last_of_key (a # as) (Suc j) \<longleftrightarrow> last_of_key as j"
  by (simp_all add: last_of_key_def)

lemma last_of_key_exists:
  "key \<in> set (map key_of names) \<Longrightarrow> \<exists>j. last_of_key names j \<and> key_of (names ! j) = key"
proof (induction names)
  case Nil
  then show ?case by simp
next
  case (Cons a as)
  show ?case
  proof (cases "key \<in> set (map key_of as)")
    case True
    from Cons.IH [OF True] obtain j where "last_of_key as j" "key_of (as ! j) = key" by blast
    then have "last_of_key (a # as) (Suc j) \<and> key_of ((a # as) ! Suc j) = key"
      by (simp add: last_of_key_Cons)
    then show ?thesis by blast
  next
    case False
    with Cons.prems have "key_of a = key" by auto
    with False have "last_of_key (a # as) 0 \<and> key_of ((a # as) ! 0) = key"
      by (simp add: last_of_key_Cons)
    then show ?thesis by blast
  qed
qed

lemma last_of_key_distinct:
  "distinct (map key_of names) \<Longrightarrow> i < length names \<Longrightarrow> last_of_key names i"
proof (induction names arbitrary: i)
  case Nil
  then show ?case by simp
next
  case (Cons a as)
  then show ?case by (cases i) (auto simp: last_of_key_Cons)
qed

lemma build_channel_index_lookup:
  assumes "\<forall>n \<in> set names. snd (snd (snd n)) \<noteq> []"
  shows "\<exists>ci'. build_channel_index i names ci = Inr ci' \<and>
     (distinct (map fst ci) \<longrightarrow> distinct (map fst ci')) \<and>
     (\<forall>j. last_of_key names j \<longrightarrow>
        lookup2 ci' (netsta_of (names ! j)) (comp_of (names ! j)) = Some (i + j)) \<and>
     (\<forall>sta c. (sta, c) \<notin> set (map key_of names) \<longrightarrow> lookup2 ci' sta c = lookup2 ci sta c)"
  using assms
proof (induction names arbitrary: i ci)
  case Nil
  then show ?case by (simp add: last_of_key_def)
next
  case (Cons name names)
  from Cons.prems have ne: "snd (snd (snd name)) \<noteq> []" by simp
  from index_channel_lookup [OF ne, of ci i] obtain ci1 where
    ci1: "index_channel ci i name = Inr ci1"
    and d1: "distinct (map fst ci) \<longrightarrow> distinct (map fst ci1)"
    and l1: "\<And>sta c. lookup2 ci1 sta c =
        (if sta = netsta_of name \<and> c = comp_of name then Some i else lookup2 ci sta c)"
    by blast
  from Cons.prems have nn: "\<forall>n \<in> set names. snd (snd (snd n)) \<noteq> []" by simp
  from Cons.IH [OF nn, of "Suc i" ci1] obtain ci' where
    b: "build_channel_index (Suc i) names ci1 = Inr ci'"
    and d': "distinct (map fst ci1) \<longrightarrow> distinct (map fst ci')"
    and hit: "\<And>j. last_of_key names j \<Longrightarrow>
        lookup2 ci' (netsta_of (names ! j)) (comp_of (names ! j)) = Some (Suc i + j)"
    and miss: "\<And>sta c. (sta, c) \<notin> set (map key_of names) \<Longrightarrow> lookup2 ci' sta c = lookup2 ci1 sta c"
    by blast
  have "build_channel_index i (name # names) ci = Inr ci'"
    using ci1 b by simp
  moreover have "distinct (map fst ci) \<longrightarrow> distinct (map fst ci')"
    using d' d1 by simp
  moreover have "lookup2 ci' (netsta_of ((name # names) ! j)) (comp_of ((name # names) ! j)) = Some (i + j)"
    if "last_of_key (name # names) j" for j
  proof (cases j)
    case 0
    with that have fresh: "key_of name \<notin> set (map key_of names)"
      by (simp add: last_of_key_Cons)
    have "lookup2 ci' (netsta_of name) (comp_of name) = lookup2 ci1 (netsta_of name) (comp_of name)"
      using fresh by (intro miss) (simp add: key_of_def)
    then show ?thesis using 0 l1 by simp
  next
    case (Suc j')
    with that have "last_of_key names j'" by (simp add: last_of_key_Cons)
    then show ?thesis using Suc hit [of j'] by simp
  qed
  moreover have "lookup2 ci' sta c = lookup2 ci sta c"
    if "(sta, c) \<notin> set (map key_of (name # names))" for sta c
  proof -
    from that have "(sta, c) \<notin> set (map key_of names)" and "(sta, c) \<noteq> key_of name" by auto
    then show ?thesis using miss [of sta c] l1 [of sta c] by (auto simp: key_of_def)
  qed
  ultimately show ?case by blast
qed


lemma pool_station_step:
  assumes wi: "well_indexed names (e # rest)" and len: "length cur = length names"
  shows "\<exists>cur'. pool_station e cur = Inr cur' \<and> length cur' = length names \<and>
     (\<forall>k < length names. cur' ! k = pooled_row names [e] cur k \<or> netsta_of (names ! k) \<noteq> fst e) \<and>
     (\<forall>k < length names. netsta_of (names ! k) \<noteq> fst e \<longrightarrow> cur' ! k = cur ! k)"
proof -
  obtain sta comps where e: "e = (sta, comps)" by (cases e) auto
  show ?thesis
  proof (cases "\<exists>i_e i_n. map_of comps CHR ''E'' = Some i_e \<and> map_of comps CHR ''N'' = Some i_n")
    case True
    then obtain i_e i_n where en: "map_of comps CHR ''E'' = Some i_e" "map_of comps CHR ''N'' = Some i_n"
      by blast
    from wi en e have r: "i_e < length names" "i_n < length names"
      and st: "netsta_of (names ! i_e) = sta" "netsta_of (names ! i_n) = sta"
      unfolding well_indexed_def key_of_def by fastforce+
    let ?mm = "row_mean (cur ! i_e) (cur ! i_n)"
    have p: "pool_station e cur = Inr ((cur[i_e := ?mm])[i_n := ?mm])"
      using en r len by (simp add: pool_station_def e Let_def)
    have "((cur[i_e := ?mm])[i_n := ?mm]) ! k = pooled_row names [e] cur k
        \<or> netsta_of (names ! k) \<noteq> fst e" if "k < length names" for k
      using that len en r by (auto simp: pooled_row_def e nth_list_update)
    moreover have "((cur[i_e := ?mm])[i_n := ?mm]) ! k = cur ! k"
      if "k < length names" "netsta_of (names ! k) \<noteq> fst e" for k
    proof -
      from that st e have "k \<noteq> i_e" "k \<noteq> i_n" by auto
      then show ?thesis by simp
    qed
    ultimately show ?thesis using p len by auto
  next
    case False
    then have p: "pool_station e cur = Inr cur"
      by (auto simp: pool_station_def e split: option.splits)
    have "cur ! k = pooled_row names [e] cur k \<or> netsta_of (names ! k) \<noteq> fst e" for k
      using False by (auto simp: pooled_row_def e split: option.splits)
    then show ?thesis using p len by auto
  qed
qed


lemma pooled_row_cong:
  assumes wi: "well_indexed names es" and k: "k < length names"
    and same: "\<And>j. j < length names \<Longrightarrow> netsta_of (names ! j) = netsta_of (names ! k) \<Longrightarrow> cur' ! j = cur ! j"
  shows "pooled_row names es cur' k = pooled_row names es cur k"
proof (cases "map_of es (netsta_of (names ! k))")
  case None
  then show ?thesis using same [OF k] by (simp add: pooled_row_def)
next
  case (Some comps)
  then have mem: "(netsta_of (names ! k), comps) \<in> set es" by (rule map_of_SomeD)
  show ?thesis
  proof (cases "\<exists>i_e i_n. map_of comps CHR ''E'' = Some i_e \<and> map_of comps CHR ''N'' = Some i_n")
    case True
    then obtain i_e i_n where en: "map_of comps CHR ''E'' = Some i_e" "map_of comps CHR ''N'' = Some i_n"
      by blast
    from wi mem en have "i_e < length names" "netsta_of (names ! i_e) = netsta_of (names ! k)"
      "i_n < length names" "netsta_of (names ! i_n) = netsta_of (names ! k)"
      unfolding well_indexed_def key_of_def by fastforce+
    then have "cur' ! i_e = cur ! i_e" "cur' ! i_n = cur ! i_n" using same by auto
    then show ?thesis using Some en same [OF k] by (simp add: pooled_row_def)
  next
    case False
    then show ?thesis using Some same [OF k]
      by (auto simp: pooled_row_def split: option.splits)
  qed
qed

lemma pool_fold:
  assumes "distinct (map fst es)" "well_indexed names es" "length cur = length names"
  shows "\<exists>out. fold_ok pool_station es cur = Inr out \<and> length out = length names \<and>
     (\<forall>k < length names. out ! k = pooled_row names es cur k)"
  using assms
proof (induction es arbitrary: cur)
  case Nil
  then show ?case by (simp add: pooled_row_def)
next
  case (Cons e rest)
  from Cons.prems have d: "distinct (map fst rest)" and fresh: "fst e \<notin> fst ` set rest" by auto
  from Cons.prems(2) have wr: "well_indexed names rest"
    unfolding well_indexed_def by (meson list.set_intros(2))
  from pool_station_step [OF Cons.prems(2,3)] obtain cur' where
    p: "pool_station e cur = Inr cur'" and l': "length cur' = length names"
    and own: "\<And>k. k < length names \<Longrightarrow> netsta_of (names ! k) = fst e \<Longrightarrow> cur' ! k = pooled_row names [e] cur k"
    and other: "\<And>k. k < length names \<Longrightarrow> netsta_of (names ! k) \<noteq> fst e \<Longrightarrow> cur' ! k = cur ! k"
    by blast
  from Cons.IH [OF d wr l'] obtain out where
    f: "fold_ok pool_station rest cur' = Inr out" and lo: "length out = length names"
    and o: "\<And>k. k < length names \<Longrightarrow> out ! k = pooled_row names rest cur' k"
    by blast
  have "out ! k = pooled_row names (e # rest) cur k" if k: "k < length names" for k
  proof (cases "netsta_of (names ! k) = fst e")
    case True
    from fresh have "map_of rest (fst e) = None" by (simp add: map_of_eq_None_iff)
    then have "pooled_row names rest cur' k = cur' ! k" using True by (simp add: pooled_row_def)
    moreover have "pooled_row names (e # rest) cur k = pooled_row names [e] cur k"
      using True by (cases e) (simp add: pooled_row_def)
    ultimately show ?thesis using o [OF k] own [OF k True] by simp
  next
    case False
    have "pooled_row names rest cur' k = pooled_row names rest cur k"
    proof (rule pooled_row_cong [OF wr k])
      fix j assume "j < length names" "netsta_of (names ! j) = netsta_of (names ! k)"
      then show "cur' ! j = cur ! j" using other [of j] False by simp
    qed
    moreover have "pooled_row names (e # rest) cur k = pooled_row names rest cur k"
      using False by (cases e) (auto simp: pooled_row_def)
    ultimately show ?thesis using o [OF k] by simp
  qed
  then show ?case using p f lo by simp
qed


lemma channel_index_built:
  assumes ne: "\<forall>n \<in> set names. snd (snd (snd n)) \<noteq> []"
  shows "\<exists>ci. build_channel_index 0 names [] = Inr ci \<and> distinct (map fst ci) \<and>
     well_indexed names ci \<and>
     (\<forall>j < length names. \<exists>comps. map_of ci (netsta_of (names ! j)) = Some comps) \<and>
     (\<forall>j comps. last_of_key names j \<and> map_of ci (netsta_of (names ! j)) = Some comps \<longrightarrow>
        map_of comps (comp_of (names ! j)) = Some j)"
proof -
  from build_channel_index_lookup [OF ne, of 0 "[]"] obtain ci where
    b: "build_channel_index 0 names [] = Inr ci" and dc: "distinct (map fst ci)"
    and hit: "\<And>j. last_of_key names j \<Longrightarrow> lookup2 ci (netsta_of (names ! j)) (comp_of (names ! j)) = Some j"
    and miss: "\<And>sta c. (sta, c) \<notin> set (map key_of names) \<Longrightarrow> lookup2 ci sta c = None"
    by (auto simp: lookup2_def)
  have wi: "well_indexed names ci"
    unfolding well_indexed_def
  proof (intro allI impI)
    fix sta comps c k
    assume a: "(sta, comps) \<in> set ci \<and> map_of comps c = Some k"
    with dc have "map_of ci sta = Some comps" by simp
    with a have l: "lookup2 ci sta c = Some k" by (simp add: lookup2_def)
    then have "(sta, c) \<in> set (map key_of names)" using miss [of sta c] by auto
    from last_of_key_exists [OF this] obtain j where
      j: "last_of_key names j" "key_of (names ! j) = (sta, c)" by blast
    with hit [of j] l have "k = j" by (simp add: key_of_def)
    with j show "k < length names \<and> key_of (names ! k) = (sta, c) \<and> last_of_key names k"
      by (simp add: last_of_key_def)
  qed
  have some: "\<exists>comps. map_of ci (netsta_of (names ! j)) = Some comps" if "j < length names" for j
  proof -
    from that have "key_of (names ! j) \<in> set (map key_of names)" by simp
    from last_of_key_exists [OF this] obtain j' where
      j': "last_of_key names j'" "key_of (names ! j') = key_of (names ! j)" by blast
    from hit [OF j'(1)] j'(2) show ?thesis
      by (auto simp: lookup2_def key_of_def split: option.splits)
  qed
  have own: "map_of comps (comp_of (names ! j)) = Some j"
    if "last_of_key names j \<and> map_of ci (netsta_of (names ! j)) = Some comps" for j comps
    using hit [of j] that by (simp add: lookup2_def)
  from b dc wi some own show ?thesis by blast
qed

text \<open>
  C5, as the code has it. The index of components keeps one position per station and
  component letter, the last one in the window. For every station with a channel of letter
  E and a channel of letter N, the rows of amplitude spectra of the last E channel and of
  the last N channel are both replaced by the mean of the two, element by element, before
  the whitening reads them. Every other row is unchanged: the row of a Z channel, the row
  of a channel without such a partner, and the row of an earlier channel of the same station
  and letter. Where every station has one channel per letter, this is the pooling of the E
  and the N channel of each station.
\<close>

theorem last_horizontal_spectra_pooled:
  assumes ne: "\<forall>n \<in> set names. snd (snd (snd n)) \<noteq> []"
    and len: "length psds = length names"
  shows "\<exists>ci out. build_channel_index 0 names [] = Inr ci \<and> pool_psds ci psds = Inr out \<and>
     length out = length psds \<and>
     (\<forall>i j. last_of_key names i \<and> last_of_key names j \<and>
        netsta_of (names ! i) = netsta_of (names ! j) \<and>
        comp_of (names ! i) = CHR ''E'' \<and> comp_of (names ! j) = CHR ''N'' \<longrightarrow>
        out ! i = row_mean (psds ! i) (psds ! j) \<and> out ! j = row_mean (psds ! i) (psds ! j)) \<and>
     (\<forall>k < length names. comp_of (names ! k) = CHR ''Z'' \<longrightarrow> out ! k = psds ! k) \<and>
     (\<forall>k < length names.
        \<not> (last_of_key names k \<and>
           (\<exists>j. last_of_key names j \<and> netsta_of (names ! j) = netsta_of (names ! k) \<and>
              {comp_of (names ! k), comp_of (names ! j)} = {CHR ''E'', CHR ''N''})) \<longrightarrow>
        out ! k = psds ! k)"
proof -
  from channel_index_built [OF ne] obtain ci where
    b: "build_channel_index 0 names [] = Inr ci" and dc: "distinct (map fst ci)"
    and wi: "well_indexed names ci"
    and some: "\<And>j. j < length names \<Longrightarrow> \<exists>comps. map_of ci (netsta_of (names ! j)) = Some comps"
    and own: "\<And>j comps. last_of_key names j \<Longrightarrow> map_of ci (netsta_of (names ! j)) = Some comps \<Longrightarrow>
        map_of comps (comp_of (names ! j)) = Some j"
    by blast
  from pool_fold [OF dc wi len] obtain out where
    p: "pool_psds ci psds = Inr out" and lo: "length out = length names"
    and o: "\<And>k. k < length names \<Longrightarrow> out ! k = pooled_row names ci psds k"
    unfolding pool_psds_def by blast
  have pooled: "out ! i = row_mean (psds ! i) (psds ! j) \<and> out ! j = row_mean (psds ! i) (psds ! j)"
    if "last_of_key names i" "last_of_key names j" "netsta_of (names ! i) = netsta_of (names ! j)"
      "comp_of (names ! i) = CHR ''E''" "comp_of (names ! j) = CHR ''N''" for i j
  proof -
    from that(1,2) have ij: "i < length names" "j < length names"
      by (simp_all add: last_of_key_def)
    from some [OF ij(1)] obtain comps where c: "map_of ci (netsta_of (names ! i)) = Some comps"
      by blast
    from own [OF that(1) c] that(4) have e: "map_of comps CHR ''E'' = Some i" by simp
    from own [OF that(2)] c that(3,5) have n: "map_of comps CHR ''N'' = Some j" by simp
    from c e n show ?thesis using o [OF ij(1)] o [OF ij(2)] that(3)
      by (simp add: pooled_row_def)
  qed
  have alone: "out ! k = psds ! k"
    if k: "k < length names"
      and no: "\<not> (last_of_key names k \<and>
           (\<exists>j. last_of_key names j \<and> netsta_of (names ! j) = netsta_of (names ! k) \<and>
              {comp_of (names ! k), comp_of (names ! j)} = {CHR ''E'', CHR ''N''}))" for k
  proof -
    from no have no': "\<And>j. last_of_key names k \<Longrightarrow> last_of_key names j \<Longrightarrow>
        netsta_of (names ! j) = netsta_of (names ! k) \<Longrightarrow>
        {comp_of (names ! k), comp_of (names ! j)} \<noteq> {CHR ''E'', CHR ''N''}" by blast
    from some [OF k] obtain comps where
      c: "map_of ci (netsta_of (names ! k)) = Some comps" by blast
    then have mem: "(netsta_of (names ! k), comps) \<in> set ci" by (rule map_of_SomeD)
    have "\<not> (k = i_e \<or> k = i_n)"
      if en: "map_of comps CHR ''E'' = Some i_e" "map_of comps CHR ''N'' = Some i_n" for i_e i_n
    proof
      assume kk: "k = i_e \<or> k = i_n"
      from wi mem en(1) have we: "key_of (names ! i_e) = (netsta_of (names ! k), CHR ''E'')"
        "last_of_key names i_e"
        unfolding well_indexed_def by blast+
      from wi mem en(2) have wn: "key_of (names ! i_n) = (netsta_of (names ! k), CHR ''N'')"
        "last_of_key names i_n"
        unfolding well_indexed_def by blast+
      from we(1) have e: "netsta_of (names ! i_e) = netsta_of (names ! k)"
        "comp_of (names ! i_e) = CHR ''E''" by (simp_all add: key_of_def)
      from wn(1) have n: "netsta_of (names ! i_n) = netsta_of (names ! k)"
        "comp_of (names ! i_n) = CHR ''N''" by (simp_all add: key_of_def)
      from kk show False
      proof
        assume ke: "k = i_e"
        from no' [OF _ wn(2) n(1)] we(2) ke have
          "{comp_of (names ! k), comp_of (names ! i_n)} \<noteq> {CHR ''E'', CHR ''N''}" by simp
        then show False using e(2) n(2) ke by simp
      next
        assume kn: "k = i_n"
        from no' [OF _ we(2) e(1)] wn(2) kn have
          "{comp_of (names ! k), comp_of (names ! i_e)} \<noteq> {CHR ''E'', CHR ''N''}" by simp
        then show False using e(2) n(2) kn by (simp add: insert_commute)
      qed
    qed
    then have nk: "\<And>i_e i_n. map_of comps CHR ''E'' = Some i_e \<Longrightarrow>
        map_of comps CHR ''N'' = Some i_n \<Longrightarrow> k \<noteq> i_e \<and> k \<noteq> i_n" by blast
    have "pooled_row names ci psds k = psds ! k"
    proof (cases "map_of comps CHR ''E''")
      case None
      then show ?thesis using c by (simp add: pooled_row_def)
    next
      case e: (Some i_e)
      show ?thesis
      proof (cases "map_of comps CHR ''N''")
        case None
        then show ?thesis using c e by (simp add: pooled_row_def)
      next
        case (Some i_n)
        with nk [OF e Some] c e show ?thesis by (simp add: pooled_row_def)
      qed
    qed
    then show ?thesis using o [OF k] by simp
  qed
  have vertical: "out ! k = psds ! k" if "k < length names" "comp_of (names ! k) = CHR ''Z''" for k
    using that by (intro alone) (auto simp: doubleton_eq_iff)
  show ?thesis
  proof (intro exI [of _ ci] exI [of _ out] conjI allI impI)
    show "build_channel_index 0 names [] = Inr ci" by (rule b)
    show "pool_psds ci psds = Inr out" by (rule p)
    show "length out = length psds" using lo len by simp
  next
    fix i j
    assume "last_of_key names i \<and> last_of_key names j \<and>
        netsta_of (names ! i) = netsta_of (names ! j) \<and>
        comp_of (names ! i) = CHR ''E'' \<and> comp_of (names ! j) = CHR ''N''"
    then show "out ! i = row_mean (psds ! i) (psds ! j)" "out ! j = row_mean (psds ! i) (psds ! j)"
      using pooled [of i j] by simp_all
  next
    fix k assume "k < length names" "comp_of (names ! k) = CHR ''Z''"
    then show "out ! k = psds ! k" by (rule vertical)
  next
    fix k assume "k < length names"
      "\<not> (last_of_key names k \<and>
           (\<exists>j. last_of_key names j \<and> netsta_of (names ! j) = netsta_of (names ! k) \<and>
              {comp_of (names ! k), comp_of (names ! j)} = {CHR ''E'', CHR ''N''}))"
    then show "out ! k = psds ! k" by (rule alone)
  qed
qed

lemma two_band_index:
  "build_channel_index 0 two_band_names []
     = Inr [(''BE.AAA'', [(CHR ''E'', 0)]),
            (''BE.BBB'', [(CHR ''E'', 3), (CHR ''N'', 2), (CHR ''Z'', 4)])]"
  by (simp add: two_band_names_def index_channel_def last_char_def)

lemma two_band_pool:
  "pool_psds [(''BE.AAA'', [(CHR ''E'', 0)]),
              (''BE.BBB'', [(CHR ''E'', 3), (CHR ''N'', 2), (CHR ''Z'', 4)])]
      [[1], [2], [4], [8], [16]] = Inr [[1], [2], [6], [6], [16]]"
  by (simp add: pool_psds_def pool_station_def row_mean_def Let_def)

theorem last_horizontal_spectra_pooled_witness:
  "build_channel_index 0 enz_names []
     = Inr [(''BE.MEM'', [(CHR ''E'', 0), (CHR ''N'', 1), (CHR ''Z'', 2)])] \<and>
   pool_psds [(''BE.MEM'', [(CHR ''E'', 0), (CHR ''N'', 1), (CHR ''Z'', 2)])] [[1, 3], [3, 5], [7, 9]]
     = Inr [[2, 4], [2, 4], [7, 9]] \<and>
   last_of_key two_band_names 3 \<and> last_of_key two_band_names 2 \<and> \<not> last_of_key two_band_names 1 \<and>
   build_channel_index 0 two_band_names []
     = Inr [(''BE.AAA'', [(CHR ''E'', 0)]),
            (''BE.BBB'', [(CHR ''E'', 3), (CHR ''N'', 2), (CHR ''Z'', 4)])] \<and>
   pool_psds [(''BE.AAA'', [(CHR ''E'', 0)]),
              (''BE.BBB'', [(CHR ''E'', 3), (CHR ''N'', 2), (CHR ''Z'', 4)])]
      [[1], [2], [4], [8], [16]] = Inr [[1], [2], [6], [6], [16]]"
proof -
  have ne: "\<forall>n \<in> set enz_names. snd (snd (snd n)) \<noteq> []"
    by (simp add: enz_names_def)
  have len: "length [[1, 3], [3, 5], [7, 9::real]] = length enz_names"
    by (simp add: enz_names_def)
  have ne2: "\<forall>n \<in> set two_band_names. snd (snd (snd n)) \<noteq> []"
    by (simp add: two_band_names_def)
  have len2: "length [[1], [2], [4], [8], [16::real]] = length two_band_names"
    by (simp add: two_band_names_def)
  have b: "build_channel_index 0 enz_names []
     = Inr [(''BE.MEM'', [(CHR ''E'', 0), (CHR ''N'', 1), (CHR ''Z'', 2)])]"
    by (simp add: enz_names_def index_channel_def last_char_def)
  have p: "pool_psds [(''BE.MEM'', [(CHR ''E'', 0), (CHR ''N'', 1), (CHR ''Z'', 2)])]
      [[1, 3], [3, 5], [7, 9]] = Inr [[2, 4], [2, 4], [7, 9]]"
    by (simp add: pool_psds_def pool_station_def row_mean_def Let_def)
  have l: "last_of_key two_band_names 3" "last_of_key two_band_names 2"
    "\<not> last_of_key two_band_names 1"
    by (simp_all add: last_of_key_def two_band_names_def key_of_def netsta_of_def comp_of_def)
  from last_horizontal_spectra_pooled [OF ne len] last_horizontal_spectra_pooled [OF ne2 len2]
    b p l two_band_index two_band_pool
  show ?thesis
    by simp
qed

text \<open>
  C5 as stated fails where a station has two channels with the same component letter.
  Station BBB has the channels BHE, BHN, HHE and HHZ, at the positions 1 to 4 of the window.
  The row of BHE is left as it was, although the station has an E and an N channel, and the
  row of BHN becomes its mean with the row of HHE, not with the row of BHE.
\<close>

theorem earlier_east_channel_not_pooled:
  "netsta_of (two_band_names ! 1) = netsta_of (two_band_names ! 2) \<and>
   comp_of (two_band_names ! 1) = CHR ''E'' \<and> comp_of (two_band_names ! 2) = CHR ''N'' \<and>
   row_mean [2] [4] = [3] \<and>
   build_channel_index 0 two_band_names []
     = Inr [(''BE.AAA'', [(CHR ''E'', 0)]),
            (''BE.BBB'', [(CHR ''E'', 3), (CHR ''N'', 2), (CHR ''Z'', 4)])] \<and>
   pool_psds [(''BE.AAA'', [(CHR ''E'', 0)]),
              (''BE.BBB'', [(CHR ''E'', 3), (CHR ''N'', 2), (CHR ''Z'', 4)])]
      [[1], [2], [4], [8], [16]] = Inr [[1], [2], [6], [6], [16]]"
  by (simp add: two_band_index two_band_pool)
     (simp add: two_band_names_def netsta_of_def comp_of_def row_mean_def)

subsection \<open>Results about the correlation of one band\<close>

lemma length_lag_window: "0 \<le> m \<Longrightarrow> int (length (lag_window c m)) = 2 * m + 1"
  by (simp add: lag_window_def)

lemma myCorr2_lengths:
  "kc \<in> set (myCorr2 ift ffts m energy index nfft) \<Longrightarrow> 0 \<le> m \<Longrightarrow>
     int (length (snd kc)) = 2 * m + 1"
  by (auto simp: myCorr2_def correlate_def length_lag_window)

text \<open>
  C7. \<open>main\<close> hands \<open>np.ceil(params.maxlag / dt)\<close> to \<open>myCorr2\<close> (line 376), the quotient
  being the one Python computes in floats from \<open>maxlag\<close> and the sample spacing \<open>dt\<close>
  (\<open>fl_div\<close>). When that quotient is not negative, every correlation that a window yields
  for a band has exactly \<open>2 * ceil(maxlag / dt) + 1\<close> samples, whatever the size \<open>nfft\<close> of the
  transform. (The extraction of the lags is that of the spec.)
\<close>

theorem pair_correlation_length:
  assumes "0 \<le> fl_div ex (maxlag p) dt"
    and "filter_corr ex p nfft dt dat psds pidx f = Inr corr" and "kc \<in> set corr"
  shows "int (length (snd kc)) = 2 * \<lceil>fl_div ex (maxlag p) dt\<rceil> + 1"
proof -
  from assms(1) have m: "0 \<le> \<lceil>fl_div ex (maxlag p) dt\<rceil>"
    by (simp add: ceiling_le_iff le_ceiling_iff)
  from assms(2) obtain bounds where "whiten_bounds ex nfft dt f = Inr bounds"
    by (cases "whiten_bounds ex nfft dt f") (simp_all add: filter_corr_def)
  with assms(2) have "corr = myCorr2 (ifft ex) (whitened ex p nfft bounds dat psds)
      \<lceil>fl_div ex (maxlag p) dt\<rceil> (map (energy_of (ifft ex) nfft) (whitened ex p nfft bounds dat psds))
      pidx nfft"
    by (cases "dt = 0") (simp_all add: filter_corr_def Let_def)
  with assms(3) m show ?thesis by (simp add: myCorr2_lengths)
qed

theorem pair_correlation_length_witness:
  "corr_lengths (filter_corr gappy_ext (example_params\<lparr>maxlag := 3 / 2\<rparr>) 5 1
      [[- 2, - 1, 0, 1, 2]] [[1, 1, 1]] [(''BE.MEM_BE.MEM_ZZ'', 0, 0)] example_filter)
     = [(''BE.MEM_BE.MEM_ZZ'', 5)] \<and>
   corr_lengths (filter_corr gappy_ext (example_params\<lparr>maxlag := 3 / 2\<rparr>) 8 1
      [[- 2, - 1, 0, 1, 2]] [[1, 1, 1]] [(''BE.MEM_BE.MEM_ZZ'', 0, 0)] example_filter)
     = [(''BE.MEM_BE.MEM_ZZ'', 5)]"
proof -
  let ?p = "example_params\<lparr>maxlag := 3 / 2\<rparr>"
  let ?k = "''BE.MEM_BE.MEM_ZZ''"
  have q: "fl_div gappy_ext (maxlag ?p) 1 = 3 / 2"
    by (simp add: gappy_ext_def example_ext_fields)
  have m: "0 \<le> fl_div gappy_ext (maxlag ?p) 1" "\<lceil>fl_div gappy_ext (maxlag ?p) 1\<rceil> = 2"
    unfolding q by simp_all
  have one: "corr_lengths (filter_corr gappy_ext ?p nfft 1 dat psds [(?k, 0, 0)] example_filter)
      = [(?k, 5)]"
    if wb: "whiten_bounds gappy_ext nfft 1 example_filter = Inr b" for nfft dat psds b
  proof -
    obtain c where c: "filter_corr gappy_ext ?p nfft 1 dat psds [(?k, 0, 0)] example_filter
        = Inr [(?k, c)]"
      using wb by (simp add: filter_corr_def myCorr2_def Let_def)
    have "int (length (snd (?k, c))) = 2 * \<lceil>fl_div gappy_ext (maxlag ?p) 1\<rceil> + 1"
      by (rule pair_correlation_length [OF m(1) c]) simp
    then have "length c = 5" unfolding m(2) by simp
    then show ?thesis by (simp add: c corr_lengths_def)
  qed
  have b5: "whiten_bounds gappy_ext 5 1 example_filter = Inr (1, 2, 1, 1)"
    unfolding gappy_ext_def by (rule example_whiten_bounds)
  have b8: "whiten_bounds gappy_ext 8 1 example_filter = Inr (1, 4, 1, 3)"
    unfolding gappy_ext_def by (rule example_bounds_8)
  show ?thesis
    using one [OF b5] one [OF b8] by simp
qed

text \<open>
  C1 is not what the code does. The spectra of all channels of a window are handed to
  \<open>whiten2\<close> in one call that is given the policy and no pair; every pair then reads the
  spectra that this call returned. When the policy of the spec treats two pairs with a
  common channel differently and whitening changes that channel's spectrum, the spectra
  read cannot be the ones the spec describes for both pairs.
\<close>

theorem whitening_not_decided_per_pair:
  assumes "claimed_whitened pol (names ! i) (names ! j) \<noteq> claimed_whitened pol (names ! i) (names ! k)"
    and "wh (raw ! i) \<noteq> raw ! i"
  shows "\<not> (spectra_read (whitened ex p nfft bounds dat psds) (i, j)
               = claimed_spectra wh pol names raw (i, j) \<and>
             spectra_read (whitened ex p nfft bounds dat psds) (i, k)
               = claimed_spectra wh pol names raw (i, k))"
proof
  let ?W = "whitened ex p nfft bounds dat psds"
  assume both: "spectra_read ?W (i, j) = claimed_spectra wh pol names raw (i, j) \<and>
      spectra_read ?W (i, k) = claimed_spectra wh pol names raw (i, k)"
  then have "fst (claimed_spectra wh pol names raw (i, j)) = ?W ! i"
    "fst (claimed_spectra wh pol names raw (i, k)) = ?W ! i"
    by (metis fst_conv spectra_read_def)+
  then have "fst (claimed_spectra wh pol names raw (i, j)) = fst (claimed_spectra wh pol names raw (i, k))"
    by simp
  moreover have "fst (claimed_spectra wh pol names raw (i, l))
      = (if claimed_whitened pol (names ! i) (names ! l) then wh (raw ! i) else raw ! i)" for l
    by (simp add: claimed_spectra_def)
  ultimately show False
    using assms by (cases "claimed_whitened pol (names ! i) (names ! j)") simp_all
qed

theorem whitening_not_decided_per_pair_witness:
  "claimed_whitened Components_different (example_names ! 0) (example_names ! 2) = False \<and>
   claimed_whitened Components_different (example_names ! 0) (example_names ! 1) = True \<and>
   map sgn [2 :: complex] \<noteq> [2] \<and>
   \<not> (spectra_read (whitened gappy_ext example_params 5 (1, 2, 1, 1) [[2], [3], [4]] []) (0, 2)
         = claimed_spectra (map sgn) Components_different example_names [[2], [3], [4]] (0, 2) \<and>
       spectra_read (whitened gappy_ext example_params 5 (1, 2, 1, 1) [[2], [3], [4]] []) (0, 1)
         = claimed_spectra (map sgn) Components_different example_names [[2], [3], [4]] (0, 1))"
proof -
  have a: "claimed_whitened Components_different (example_names ! 0) (example_names ! 2) = False"
    by (simp add: claimed_whitened_def example_names_def comp_of_def)
  have a': "claimed_whitened Components_different (example_names ! 0) (example_names ! 1) = True"
    by (simp add: claimed_whitened_def example_names_def comp_of_def)
  have b: "map sgn ([[2], [3], [4]] ! 0) \<noteq> [[2], [3], [4 :: complex]] ! 0"
    by (simp add: sgn_eq)
  have b': "map sgn [2 :: complex] \<noteq> [2]"
    by (simp add: sgn_eq)
  have c: "claimed_whitened Components_different (example_names ! 0) (example_names ! 2)
      \<noteq> claimed_whitened Components_different (example_names ! 0) (example_names ! 1)"
    unfolding a a' by simp
  from whitening_not_decided_per_pair [of Components_different example_names 0 2 1 "map sgn"
      "[[2], [3], [4]]", OF c b] a a' b' show ?thesis
    by blast
qed

subsection \<open>Results about the loop over the jobs\<close>

lemma whiten_bounds_empty:
  "freq_sel ex nfft dt (low f) (high f) = [] \<Longrightarrow> whiten_bounds ex nfft dt f = Inl IndexError"
  by (simp add: whiten_bounds_def)

lemma filter_step_error:
  "whiten_bounds ex nfft dt f = Inl e \<Longrightarrow>
     filter_step ex p nfft dt dat psds pidx thisdate thistime f ac = Inl e"
  by (simp add: filter_step_def filter_corr_def)

lemma high_filter_bounds: "whiten_bounds (example_ext g s w j) 5 1 high_filter = Inl IndexError"
  by (rule whiten_bounds_empty) (simp add: high_filter_def example_freq_sel)

lemma two_station_select:
  "select_channels two_station_ext four_second_params [] two_station_stream = Some two_station_stream"
proof -
  have r: "remove_gapped [] two_station_stream = two_station_stream"
    by (simp add: remove_gapped_def channels_to_remove_def)
  have b: "base_npts two_station_stream = 5"
    by (simp add: base_npts_def two_station_stream_def example_npts)
  have f: "filter (\<lambda>tr. npts tr = 5) two_station_stream = two_station_stream"
    by (simp add: two_station_stream_def example_npts)
  have ne: "remove_gapped [] two_station_stream \<noteq> []"
    by (simp add: r) (simp add: two_station_stream_def)
  from select_channels_eq [OF ne, of two_station_ext four_second_params] show ?thesis
    by (simp add: r b f two_station_ext_def example_lag_threshold)
qed

lemma two_station_correlate:
  "correlate_traces two_station_ext four_second_params [high_filter] 1 5 0
     [example_trace ''MEM'' ''HHZ'' d, example_trace ''UCC'' ''HHZ'' d'] ac
   = Inl IndexError"
proof -
  have p: "components_to_compute four_second_params = [''ZZ'']" "autocorr four_second_params = False"
    by (simp_all add: four_second_params_def example_params_def)
  show ?thesis
    unfolding correlate_traces_def Let_def two_channel_names two_channel_index on_ok_Inr
      example_pool two_channel_pairs [OF p] fold_ok_single two_station_ext_def
    by (rule filter_step_error [OF high_filter_bounds])
qed

lemma two_station_window:
  "process_window two_station_ext four_second_params [high_filter] 1 two_station_stream ac
   = Inl IndexError"
proof -
  have ne: "two_station_stream \<noteq> []"
    by (simp add: two_station_stream_def)
  have ex: "stream_sort two_station_ext two_station_stream = two_station_stream"
    "get_gaps two_station_ext two_station_stream = []"
    "next_fast_len two_station_ext 5 = 5"
    by (simp_all add: two_station_ext_def example_ext_fields)
  have s: "select_channels two_station_ext four_second_params
      (get_gaps two_station_ext (stream_sort two_station_ext two_station_stream))
      (stream_sort two_station_ext two_station_stream) = Some two_station_stream"
    unfolding ex by (rule two_station_select)
  have a: "\<forall>tr \<in> set two_station_stream. npts tr = 5"
    by (simp add: two_station_stream_def example_npts)
  have w: "windsorizing four_second_params = 0"
    by (simp add: four_second_params_def example_params_def)
  have nt: "normalise_traces two_station_ext four_second_params two_station_stream
     = [example_trace ''MEM'' ''HHZ'' (demean [1, 2, 3, 4, 5]),
        example_trace ''UCC'' ''HHZ'' (demean [5, 4, 3, 2, 1])]"
    unfolding two_station_ext_def two_station_stream_def by (rule example_normalise(2) [OF w])
  have st: "starttime (hd two_station_stream) = 0"
    by (simp add: two_station_stream_def example_starttime)
  show ?thesis
    unfolding process_window_kept [OF ne s ne a] ex nt st
    by (rule two_station_correlate)
qed

lemma example_job_stations: "\<exists>st. job_stations [example_job] = Inr st"
  by (simp add: job_stations_def example_job_def)

lemma example_wanted_comps: "\<exists>cs. wanted_comps four_second_params = Inr cs"
  by (simp add: wanted_comps_def comp_letters_def example_params_def four_second_params_def)

lemma two_station_run:
  "run_jobs two_station_ext four_second_params [high_filter] [example_job] calls = Inl IndexError"
proof -
  obtain st where st: "job_stations [example_job] = Inr st"
    using example_job_stations by blast
  obtain cs where cs: "wanted_comps four_second_params = Inr cs"
    using example_wanted_comps by blast
  have pre: "preprocess two_station_ext st cs d = two_station_stream" for d
    by (simp add: two_station_ext_def example_ext_fields)
  have len: "(length two_station_stream = 0) = False"
    by (simp add: two_station_stream_def)
  have sr: "(goal_sampling_rate four_second_params = 0) = False"
    "fl_div two_station_ext 1 (goal_sampling_rate four_second_params) = 1"
    by (simp_all add: four_second_params_def example_params_def two_station_ext_def
        example_ext_fields)
  have sl: "slide two_station_ext two_station_stream len step = [two_station_stream]" for len step
    by (simp add: two_station_ext_def example_ext_fields)
  show ?thesis
    unfolding run_jobs_def st cs on_ok_Inr Let_def pre len sr sl fold_ok_single two_station_window
    by simp
qed

text \<open>
  C8 does not hold of the code for a band that has no bin in a window: \<open>freq_sel[0]\<close>
  (line 358) raises \<open>IndexError\<close>, nothing catches it, and the run ends there with the
  claimed job left as it was. Here the sampling rate is 1 Hz and the band, from 0.6 Hz to
  0.8 Hz, lies above half of it; the day has two stations with five samples each, and the
  windows are 4 s long, so that the day is one window.
\<close>

theorem band_without_bins_aborts_run:
  "main two_station_ext four_second_params [high_filter] = Some (Inl IndexError)"
proof -
  have n: "is_next_job two_station_ext [] = True" "get_next_job two_station_ext [] = [example_job]"
    by (simp_all add: two_station_ext_def example_ext_fields)
  have "main_loop two_station_ext four_second_params [high_filter] [] = Some (Inl IndexError)"
    by (subst main_loop.simps) (simp add: n Let_def two_station_run)
  then show ?thesis by (simp add: main_def)
qed


lemma run_jobs_empty_stream:
  assumes "job_stations jobs = Inr stations" and "wanted_comps p = Inr comps"
    and "preprocess ex stations comps (job_day (last jobs)) = []"
  shows "run_jobs ex p filters jobs calls
     = Inr (calls @ [Preprocess stations comps (job_day (last jobs))] @ map job_done jobs)"
  using assms by (simp add: run_jobs_def Let_def)

lemma run_jobs_no_window:
  assumes "job_stations jobs = Inr stations" and "wanted_comps p = Inr comps"
    and "preprocess ex stations comps (job_day (last jobs)) = stream" and "stream \<noteq> []"
    and "goal_sampling_rate p \<noteq> 0"
    and "slide ex stream (corr_duration p) (fl_mul ex (corr_duration p) (fl_sub ex 1 (overlap p))) = []"
  shows "run_jobs ex p filters jobs calls
     = Inr (calls @ [Preprocess stations comps (job_day (last jobs))]
          @ Massive_update_job jobs ''D'' # map stack_todo jobs)"
  using assms by (simp add: run_jobs_def Let_def)

lemma main_loop_step:
  assumes "is_next_job ex calls" and "get_next_job ex calls = jobs" and "jobs \<noteq> []"
    and "run_jobs ex p filters jobs (calls @ [Get_next_job jobs]) = Inr calls'"
  shows "main_loop ex p filters calls = main_loop ex p filters calls'"
  using assms by (subst main_loop.simps) (simp add: Let_def)

text \<open>
  C9. When the jobs of a day were claimed and \<open>preprocess\<close> returns an empty stream, or a
  stream for which \<open>slide\<close> yields no window (it is shorter than one window), the turn of
  the loop raises nothing, every claimed job is marked done (one \<open>update_job\<close> with flag D
  per job in the first case, \<open>massive_update_job\<close> with flag D in the second, where the
  STACK jobs are also filed), \<open>add_corr\<close> is not called, and the loop goes on to its next
  turn.
\<close>

theorem no_data_marks_jobs_done:
  assumes "is_next_job ex calls" and "get_next_job ex calls = jobs" and "jobs \<noteq> []"
    and "job_stations jobs = Inr stations" and "wanted_comps p = Inr comps"
    and "preprocess ex stations comps (job_day (last jobs)) = stream"
    and "stream = [] \<or>
         (goal_sampling_rate p \<noteq> 0 \<and>
          slide ex stream (corr_duration p)
            (fl_mul ex (corr_duration p) (fl_sub ex 1 (overlap p))) = [])"
  shows "\<exists>marks.
     (marks = map job_done jobs \<or> marks = Massive_update_job jobs ''D'' # map stack_todo jobs) \<and>
     run_jobs ex p filters jobs (calls @ [Get_next_job jobs])
       = Inr (calls @ [Get_next_job jobs, Preprocess stations comps (job_day (last jobs))] @ marks) \<and>
     main_loop ex p filters calls
       = main_loop ex p filters
           (calls @ [Get_next_job jobs, Preprocess stations comps (job_day (last jobs))] @ marks)"
proof (cases "stream = []")
  case True
  let ?marks = "map job_done jobs"
  have r: "run_jobs ex p filters jobs (calls @ [Get_next_job jobs])
       = Inr (calls @ [Get_next_job jobs, Preprocess stations comps (job_day (last jobs))] @ ?marks)"
    using run_jobs_empty_stream [OF assms(4,5), of ex filters "calls @ [Get_next_job jobs]"]
      assms(6) True by simp
  from main_loop_step [OF assms(1,2,3) r] r show ?thesis by blast
next
  case False
  let ?marks = "Massive_update_job jobs ''D'' # map stack_todo jobs"
  from False assms(7) have sr: "goal_sampling_rate p \<noteq> 0"
    and sl: "slide ex stream (corr_duration p)
        (fl_mul ex (corr_duration p) (fl_sub ex 1 (overlap p))) = []" by auto
  have r: "run_jobs ex p filters jobs (calls @ [Get_next_job jobs])
       = Inr (calls @ [Get_next_job jobs, Preprocess stations comps (job_day (last jobs))] @ ?marks)"
    using run_jobs_no_window [OF assms(4,5,6) False sr sl, of filters "calls @ [Get_next_job jobs]"]
    by simp
  from main_loop_step [OF assms(1,2,3) r] r show ?thesis by blast
qed

text \<open>
  C10. When \<open>is_next_job\<close> holds and \<open>get_next_job\<close> returns no job, the loop goes on to its
  next turn: nothing is raised, and between the two turns no call is made but the claim
  itself (no job is marked, \<open>preprocess\<close> is not called).
\<close>

theorem empty_claim_continues:
  assumes "is_next_job ex calls" and "get_next_job ex calls = []"
  shows "main_loop ex p filters calls = main_loop ex p filters (calls @ [Get_next_job []])"
  using assms by (subst main_loop.simps) (simp add: Let_def)


lemma example_stations: "job_stations [example_job] = Inr [''BE.MEM'', ''BE.UCC'']"
  by code_simp

lemma example_comps: "wanted_comps example_params = Inr [''Z'']"
  by code_simp

lemma main_loop_stops: "\<not> is_next_job ex calls \<Longrightarrow> main_loop ex p filters calls = Some (Inr calls)"
  by (subst main_loop.simps) simp

theorem no_data_marks_jobs_done_witness:
  "main (example_ext [] [] [] [example_job]) example_params [example_filter]
     = Some (Inr [Get_next_job [example_job],
                  Preprocess [''BE.MEM'', ''BE.UCC''] [''Z''] ''2020-01-01'',
                  Update_job ''2020-01-01'' ''BE.MEM:BE.UCC'' ''CC'' ''D'' (Some 7)]) \<and>
   main (example_ext [] short_stream [] [example_job]) example_params [example_filter]
     = Some (Inr [Get_next_job [example_job],
                  Preprocess [''BE.MEM'', ''BE.UCC''] [''Z''] ''2020-01-01'',
                  Massive_update_job [example_job] ''D'',
                  Update_job ''2020-01-01'' ''BE.MEM:BE.UCC'' ''STACK'' ''T'' None])"
proof -
  let ?e1 = "example_ext [] [] [] [example_job]"
  let ?e2 = "example_ext [] short_stream [] [example_job]"
  have day: "job_day example_job = ''2020-01-01''"
    by (simp add: example_job_def)
  have marks: "job_done example_job = Update_job ''2020-01-01'' ''BE.MEM:BE.UCC'' ''CC'' ''D'' (Some 7)"
    "stack_todo example_job = Update_job ''2020-01-01'' ''BE.MEM:BE.UCC'' ''STACK'' ''T'' None"
    by (simp_all add: job_done_def stack_todo_def example_job_def)
  have n1: "is_next_job ?e1 []" "get_next_job ?e1 [] = [example_job]"
    "preprocess ?e1 [''BE.MEM'', ''BE.UCC''] [''Z''] (job_day (last [example_job])) = []"
    by (simp_all add: example_ext_fields)
  have n2: "is_next_job ?e2 []" "get_next_job ?e2 [] = [example_job]"
    "preprocess ?e2 [''BE.MEM'', ''BE.UCC''] [''Z''] (job_day (last [example_job])) = short_stream"
    by (simp_all add: example_ext_fields)
  have short: "short_stream = [] \<or> (goal_sampling_rate example_params \<noteq> 0 \<and>
      slide ?e2 short_stream (corr_duration example_params)
        (fl_mul ?e2 (corr_duration example_params) (fl_sub ?e2 1 (overlap example_params))) = [])"
    by (simp add: example_ext_fields example_params_def)
  have stop: "main_loop ex example_params [example_filter] (c # cs) = Some (Inr (c # cs))"
    if "is_next_job ex = (\<lambda>calls. calls = [])" for ex c cs
    by (rule main_loop_stops) (simp add: that)
  have i1: "is_next_job ?e1 = (\<lambda>calls. calls = [])" and i2: "is_next_job ?e2 = (\<lambda>calls. calls = [])"
    by (simp_all add: example_ext_def)
  have s2: "short_stream \<noteq> []" by (simp add: short_stream_def)
  from no_data_marks_jobs_done [OF n1(1,2) _ example_stations example_comps n1(3), of "[example_filter]"]
    run_jobs_empty_stream [OF example_stations example_comps n1(3), of "[example_filter]" "[Get_next_job [example_job]]"]
  have "main_loop ?e1 example_params [example_filter] []
     = Some (Inr [Get_next_job [example_job],
                  Preprocess [''BE.MEM'', ''BE.UCC''] [''Z''] ''2020-01-01'',
                  Update_job ''2020-01-01'' ''BE.MEM:BE.UCC'' ''CC'' ''D'' (Some 7)])"
    by (auto simp: day marks stop [OF i1])
  moreover
  from no_data_marks_jobs_done [OF n2(1,2) _ example_stations example_comps n2(3) short, of "[example_filter]"]
    run_jobs_no_window [OF example_stations example_comps n2(3) s2, of "[example_filter]" "[Get_next_job [example_job]]"]
    short s2
  have "main_loop ?e2 example_params [example_filter] []
     = Some (Inr [Get_next_job [example_job],
                  Preprocess [''BE.MEM'', ''BE.UCC''] [''Z''] ''2020-01-01'',
                  Massive_update_job [example_job] ''D'',
                  Update_job ''2020-01-01'' ''BE.MEM:BE.UCC'' ''STACK'' ''T'' None])"
    by (auto simp: day marks stop [OF i2])
  ultimately show ?thesis by (simp add: main_def)
qed

theorem empty_claim_continues_witness:
  "main (example_ext [] [] [] []) example_params [example_filter] = Some (Inr [Get_next_job []])"
proof -
  let ?e = "example_ext [] [] [] []"
  have n: "is_next_job ?e []" "get_next_job ?e [] = []" "\<not> is_next_job ?e [Get_next_job []]"
    by (simp_all add: example_ext_fields)
  from empty_claim_continues [OF n(1,2), of example_params "[example_filter]"]
    main_loop_stops [OF n(3), of example_params "[example_filter]"]
  show ?thesis by (simp add: main_def)
qed

end
